theory Spec2Isabelle
  imports Main "HOL-Library.Word" "HOL-Library.Char_ord" "HOL-Library.List_Lexorder"
    "HOL-Library.Product_Lexorder" "HOL-Library.Multiset"
begin

unbundle bit_operations_syntax

section \<open>The class linker of the runtime (runtime/mem_map.h)\<close>

text \<open>
  The file \<^verbatim>\<open>src/runtime/mem_map.h\<close> holds the class linker (\<^verbatim>\<open>ClassLinker\<close>): class
  definition, the class table, virtual and interface method tables, field layout and class
  initialisation.  Every function below is a translation of the function of the same name.

  Conventions of the embedding.
  \<^item> Objects that the code shares by pointer (classes, methods) live in a store, a function
    from addresses (\<open>nat\<close>) to records; a pointer is an address, \<^verbatim>\<open>NULL\<close> is \<open>None\<close>.
    The class that a linking function works on (its \<^verbatim>\<open>klass\<close> argument) is passed and
    returned as a value; the store holds the other classes (superclass, interfaces), which
    linking reads and never writes.
  \<^item> Fields (\<^verbatim>\<open>ArtField\<close>) are owned by exactly one array of one class, so they are record
    values inside the list that models the array.
  \<^item> A failed \<^verbatim>\<open>CHECK\<close> aborts the process: it is the result \<open>Inl Aborted\<close>.  The model is
    of a release build: \<^verbatim>\<open>DCHECK\<close>s and blocks under \<^verbatim>\<open>kIsDebugBuild\<close> that only assert
    are left out, logging is left out.
  \<^item> A Java exception is a value of type \<open>Throwable\<close>; the exception pending on a thread
    is a field of the thread, which the functions that throw take and return.
  \<^item> A function that can wait for another thread for ever, or whose recursion follows
    pointers of the store, returns an \<open>option\<close>: \<open>None\<close> is not returning.
  \<^item> Offsets and sizes are 32-bit (\<^verbatim>\<open>MemberOffset::Uint32Value\<close>, \<^verbatim>\<open>uint32_t\<close>): \<open>32 word\<close>.
  \<^item> What the C++ library and the target fix is a parameter: \<^verbatim>\<open>std::sort\<close>, of which only
    the contract of the standard is assumed, and the width of \<^verbatim>\<open>size_t\<close> and the signedness
    of \<^verbatim>\<open>char\<close>.
\<close>

subsection \<open>Data model\<close>

datatype abort = Aborted

text \<open>\<^verbatim>\<open>Primitive::Type\<close>; the linker names \<^verbatim>\<open>kPrimNot\<close>, \<^verbatim>\<open>kPrimLong\<close> and \<^verbatim>\<open>kPrimDouble\<close>,
  the other members are those of \<^verbatim>\<open>FindPrimitiveClass\<close>.\<close>

datatype Primitive_Type =
  kPrimNot | kPrimBoolean | kPrimByte | kPrimChar | kPrimShort | kPrimInt
  | kPrimLong | kPrimFloat | kPrimDouble | kPrimVoid

text \<open>Modelled from the spec: \<^verbatim>\<open>Primitive::GetType\<close> is declared in primitive.h, which is not
  part of the sources at hand.  A descriptor is a "canonical string encoding of a type" with
  "primitive single-char codes"; the codes are the ones \<^verbatim>\<open>FindPrimitiveClass\<close> switches on,
  and every other first character (\<^verbatim>\<open>L\<close>, \<^verbatim>\<open>[\<close>) is a reference type.\<close>

definition Primitive_GetType :: "char \<Rightarrow> Primitive_Type" where
  "Primitive_GetType c =
     (if c = CHR ''B'' then kPrimByte
      else if c = CHR ''C'' then kPrimChar
      else if c = CHR ''D'' then kPrimDouble
      else if c = CHR ''F'' then kPrimFloat
      else if c = CHR ''I'' then kPrimInt
      else if c = CHR ''J'' then kPrimLong
      else if c = CHR ''S'' then kPrimShort
      else if c = CHR ''Z'' then kPrimBoolean
      else if c = CHR ''V'' then kPrimVoid
      else kPrimNot)"

text \<open>\<^verbatim>\<open>mirror::ArtField\<close> as the field layout sees it: the name and the type descriptor that
  \<^verbatim>\<open>FieldHelper\<close> reads from the dex file, and the offset that \<^verbatim>\<open>SetOffset\<close> writes.\<close>

record ArtField =
  field_name :: string
  field_type_descriptor :: string
  field_offset :: "32 word"

definition GetTypeAsPrimitiveType :: "ArtField \<Rightarrow> Primitive_Type" where
  "GetTypeAsPrimitiveType f =
     (case field_type_descriptor f of [] \<Rightarrow> kPrimNot | c # _ \<Rightarrow> Primitive_GetType c)"

text \<open>\<^verbatim>\<open>mirror::Class::Status\<close>.\<close>

datatype Status =
  kStatusError | kStatusNotReady | kStatusIdx | kStatusLoaded | kStatusResolved
  | kStatusVerifying | kStatusRetryVerificationAtRuntime | kStatusVerifyingAtRuntime
  | kStatusVerified | kStatusInitializing | kStatusInitialized

text \<open>Modelled from the spec: the numeric values of the status enumeration are declared in
  mirror/class.h, which is not part of the sources at hand.  The states are "strictly ordered
  except Error": \<open>Idx \<rightarrow> Loaded \<rightarrow> Resolved \<rightarrow> Verified[RetryAtRuntime] \<rightarrow> Initializing \<rightarrow>
  Initialized\<close>, and Error is below all of them.\<close>

fun status_value :: "Status \<Rightarrow> int" where
  "status_value kStatusError = -1"
| "status_value kStatusNotReady = 0"
| "status_value kStatusIdx = 1"
| "status_value kStatusLoaded = 2"
| "status_value kStatusResolved = 3"
| "status_value kStatusVerifying = 4"
| "status_value kStatusRetryVerificationAtRuntime = 5"
| "status_value kStatusVerifyingAtRuntime = 6"
| "status_value kStatusVerified = 7"
| "status_value kStatusInitializing = 8"
| "status_value kStatusInitialized = 9"

text \<open>\<^verbatim>\<open>mirror::Class\<close>.  Addresses of other objects are \<open>nat\<close>; \<open>class_loader = None\<close> is the
  bootstrap loader.  \<open>direct_interfaces\<close> is what \<^verbatim>\<open>ClassHelper::GetDirectInterface\<close> yields,
  \<open>class_initializer\<close> what \<^verbatim>\<open>FindClassInitializer\<close> yields, \<open>static_values_off\<close> the field
  of the class definition that \<^verbatim>\<open>CanWeInitializeClass\<close> reads, \<open>is_variable_size\<close> the result
  of \<^verbatim>\<open>IsVariableSize\<close>.  An \<open>iftable\<close> entry is an interface and its method array.\<close>

record Class =
  descriptor :: string
  class_loader :: "nat option"
  status :: Status
  access_flags :: "32 word"
  super_class :: "nat option"
  direct_interfaces :: "nat list"
  clinit_thread_id :: nat
  verify_error_class :: "nat option"
  class_initializer :: "nat option"
  static_values_off :: "32 word"
  is_variable_size :: bool
  class_size :: "32 word"
  object_size :: "32 word"
  sfields :: "ArtField list"
  ifields :: "ArtField list"
  num_reference_static_fields :: nat
  num_reference_instance_fields :: nat
  virtual_methods :: "nat list"
  vtable :: "nat list option"
  iftable :: "(nat \<times> nat list option) list option"
  imtable :: "nat list"

definition IsErroneous :: "Class \<Rightarrow> bool" where
  "IsErroneous c = (status c = kStatusError)"

definition IsResolved :: "Class \<Rightarrow> bool" where
  "IsResolved c = (status_value (status c) \<ge> status_value kStatusResolved)"

definition IsVerified :: "Class \<Rightarrow> bool" where
  "IsVerified c = (status_value (status c) \<ge> status_value kStatusVerified)"

definition IsInitialized :: "Class \<Rightarrow> bool" where
  "IsInitialized c = (status c = kStatusInitialized)"

subsection \<open>Field layout: \<^verbatim>\<open>LinkFieldsComparator\<close>, \<^verbatim>\<open>LinkFields\<close>, \<^verbatim>\<open>SizeOfClass\<close>\<close>

definition is_64bit :: "Primitive_Type \<Rightarrow> bool" where
  "is_64bit t = (t = kPrimLong \<or> t = kPrimDouble)"

text \<open>\<^verbatim>\<open>order1\<close>, \<^verbatim>\<open>order2\<close> of the comparator: 0 for a reference, 1 for a 64-bit primitive,
  2 for any other primitive.\<close>

definition field_order :: "Primitive_Type \<Rightarrow> nat" where
  "field_order t =
     (let is_primitive = (t \<noteq> kPrimNot);
          is64bit = (is_primitive \<and> (t = kPrimLong \<or> t = kPrimDouble))
      in if \<not> is_primitive then 0 else (if is64bit then 1 else 2))"

text \<open>\<^verbatim>\<open>LinkFieldsComparator::operator()\<close>.  \<^verbatim>\<open>strcmp(name1, name2) < 0\<close> compares the names
  byte by byte as unsigned characters, a proper prefix being smaller: the lexicographic order
  on \<open>string\<close>.\<close>

definition LinkFieldsComparator :: "ArtField \<Rightarrow> ArtField \<Rightarrow> bool" where
  "LinkFieldsComparator field1 field2 =
     (let type1 = GetTypeAsPrimitiveType field1;
          type2 = GetTypeAsPrimitiveType field2
      in if type1 \<noteq> type2 \<and> field_order type1 \<noteq> field_order type2
         then field_order type1 < field_order type2
         else field_name field1 < field_name field2)"

text \<open>\<^verbatim>\<open>std::sort\<close> with the comparator is a function of the C++ library, not of the
  sources at hand: \<^verbatim>\<open>LinkFields\<close> takes it as the parameter \<open>std_sort\<close>.  What the standard
  promises of it: the result is a permutation of the argument, and no element of the result
  is smaller, for the comparator, than an element before it.  The order of elements that
  the comparator does not distinguish is not fixed.\<close>

definition std_sort_contract :: "(ArtField list \<Rightarrow> ArtField list) \<Rightarrow> bool" where
  "std_sort_contract std_sort =
     (\<forall>fs. mset (std_sort fs) = mset fs \<and>
           sorted_wrt (\<lambda>a b. \<not> LinkFieldsComparator b a) (std_sort fs))"

text \<open>First loop of \<^verbatim>\<open>LinkFields\<close>: while the front of the deque is a reference field, pop
  it, store it at \<^verbatim>\<open>current_field\<close>, give it the running offset and advance by
  \<^verbatim>\<open>sizeof(uint32_t)\<close>.  Result: the fields stored, the rest of the deque, the offset.\<close>

fun link_reference_fields ::
  "ArtField list \<Rightarrow> 32 word \<Rightarrow> ArtField list \<times> ArtField list \<times> 32 word" where
  "link_reference_fields [] off = ([], [], off)"
| "link_reference_fields (f # fs) off =
     (if GetTypeAsPrimitiveType f \<noteq> kPrimNot then ([], f # fs, off)
      else (case link_reference_fields fs (off + 4) of
              (out, rest, off') \<Rightarrow> (f\<lparr>field_offset := off\<rparr> # out, rest, off')))"

text \<open>Second loop: the first field of the deque that is not 64 bits wide, erased from the
  deque; \<open>None\<close> when there is none.\<close>

fun find_padding_field :: "ArtField list \<Rightarrow> abort + (ArtField \<times> ArtField list) option" where
  "find_padding_field [] = Inr None"
| "find_padding_field (f # fs) =
     (let t = GetTypeAsPrimitiveType f
      in if t = kPrimNot then Inl Aborted
         else if t = kPrimLong \<or> t = kPrimDouble
         then (case find_padding_field fs of
                 Inl a \<Rightarrow> Inl a
               | Inr None \<Rightarrow> Inr None
               | Inr (Some (p, rest)) \<Rightarrow> Inr (Some (p, f # rest)))
         else Inr (Some (f, fs)))"

text \<open>Third loop: pop every remaining field, give it the running offset, advance by 8 for
  a 64-bit field and by 4 otherwise.\<close>

fun link_remaining_fields ::
  "ArtField list \<Rightarrow> 32 word \<Rightarrow> abort + (ArtField list \<times> 32 word)" where
  "link_remaining_fields [] off = Inr ([], off)"
| "link_remaining_fields (f # fs) off =
     (let t = GetTypeAsPrimitiveType f
      in if t = kPrimNot then Inl Aborted
         else (case link_remaining_fields fs
                      (off + (if t = kPrimLong \<or> t = kPrimDouble then 8 else 4)) of
                 Inl a \<Rightarrow> Inl a
               | Inr (out, off') \<Rightarrow> Inr (f\<lparr>field_offset := off\<rparr> # out, off')))"

text \<open>Modelled from the spec: \<^verbatim>\<open>IsAligned<8>\<close> and \<^verbatim>\<open>RoundUp\<close> are declared in utils.h,
  which is not part of the sources at hand; "8-byte aligned" is a multiple of 8, and rounding
  up is to the next multiple, in the 32 bits of the argument.\<close>

definition IsAligned8 :: "32 word \<Rightarrow> bool" where
  "IsAligned8 x = (x AND 7 = 0)"

definition RoundUp8 :: "32 word \<Rightarrow> 32 word" where
  "RoundUp8 x = (x + 7) AND NOT 7"

text \<open>The three loops together: from the sorted deque and the first offset to the new
  content of the field array, the number of reference fields and the final offset.\<close>

definition layout_fields ::
  "ArtField list \<Rightarrow> 32 word \<Rightarrow> abort + (ArtField list \<times> nat \<times> 32 word)" where
  "layout_fields grouped_and_sorted_fields field_offset0 =
     (case link_reference_fields grouped_and_sorted_fields field_offset0 of
        (refs, deque1, off1) \<Rightarrow>
          (case (if deque1 \<noteq> [] \<and> \<not> IsAligned8 off1
                 then (case find_padding_field deque1 of
                         Inl a \<Rightarrow> Inl a
                       | Inr None \<Rightarrow> Inr ([], deque1, off1 + 4)
                       | Inr (Some (p, deque2)) \<Rightarrow>
                           Inr ([p\<lparr>field_offset := off1\<rparr>], deque2, off1 + 4))
                 else Inr ([], deque1, off1)) of
             Inl a \<Rightarrow> Inl a
           | Inr (pad, deque2, off2) \<Rightarrow>
               (case link_remaining_fields deque2 off2 of
                  Inl a \<Rightarrow> Inl a
                | Inr (others, off3) \<Rightarrow> Inr (refs @ pad @ others, length refs, off3))))"

text \<open>\<^verbatim>\<open>ClassLinker::LinkFields\<close>, in the four steps of its body.  \<open>Class_FieldsOffset\<close> is
  \<^verbatim>\<open>mirror::Class::FieldsOffset()\<close>, a constant of mirror/class.h.  \<open>heap\<close> is the store of
  the other classes.

  "Initialize size and field_offset": the first offset is the fields offset of the class
  object for static fields, and the object size of the superclass (which must be resolved),
  or 0 without a superclass, for instance fields.\<close>

definition initial_field_offset ::
  "32 word \<Rightarrow> (nat \<Rightarrow> Class) \<Rightarrow> Class \<Rightarrow> bool \<Rightarrow> abort + 32 word" where
  "initial_field_offset Class_FieldsOffset heap klass is_static =
     (if is_static then Inr Class_FieldsOffset
      else (case super_class klass of
              None \<Rightarrow> Inr 0
            | Some super \<Rightarrow>
                if IsResolved (heap super) then Inr (object_size (heap super))
                else Inl Aborted))"

text \<open>"We lie to the GC about the java.lang.ref.Reference.referent field": for the instance
  fields of that class all fields must be references and the last one must be named
  \<^verbatim>\<open>referent\<close>; it is not counted.  Reading the last field of an empty array is an abort.\<close>

definition hide_referent ::
  "Class \<Rightarrow> bool \<Rightarrow> ArtField list \<Rightarrow> nat \<Rightarrow> nat \<Rightarrow> abort + nat" where
  "hide_referent klass is_static field_array num_fields num_reference_fields =
     (if \<not> is_static \<and> descriptor klass = ''Ljava/lang/ref/Reference;''
      then (if num_reference_fields \<noteq> num_fields then Inl Aborted
            else if field_array = [] then Inl Aborted
            else if field_name (last field_array) \<noteq> ''referent'' then Inl Aborted
            else Inr (num_reference_fields - 1))
      else Inr num_reference_fields)"

text \<open>"Update klass": the field array, the number of reference fields and the size.  An
  object size recorded before must be the size computed.\<close>

definition update_klass ::
  "Class \<Rightarrow> bool \<Rightarrow> ArtField list \<Rightarrow> nat \<Rightarrow> 32 word \<Rightarrow> abort + Class" where
  "update_klass klass is_static field_array num_reference_fields new_size =
     (if is_static
      then Inr (klass\<lparr>sfields := field_array,
                      num_reference_static_fields := num_reference_fields,
                      class_size := new_size\<rparr>)
      else (let klass1 = klass\<lparr>ifields := field_array,
                               num_reference_instance_fields := num_reference_fields\<rparr>
            in if \<not> is_variable_size klass
               then (let previous_size = object_size klass
                     in if previous_size \<noteq> 0 \<and> previous_size \<noteq> new_size then Inl Aborted
                        else Inr (klass1\<lparr>object_size := new_size\<rparr>))
               else Inr klass1))"

text \<open>The function itself.  \<^verbatim>\<open>CHECK_EQ(num_fields == 0, fields == NULL)\<close> holds of a list.\<close>

definition LinkFields ::
  "(ArtField list \<Rightarrow> ArtField list) \<Rightarrow> 32 word \<Rightarrow> (nat \<Rightarrow> Class) \<Rightarrow> Class \<Rightarrow> bool
     \<Rightarrow> abort + Class" where
  "LinkFields std_sort Class_FieldsOffset heap klass is_static =
     (let field_array = (if is_static then sfields klass else ifields klass);
          num_fields = length field_array
      in case initial_field_offset Class_FieldsOffset heap klass is_static of
           Inl a \<Rightarrow> Inl a
         | Inr field_offset0 \<Rightarrow>
           (case layout_fields (std_sort field_array) field_offset0 of
              Inl a \<Rightarrow> Inl a
            | Inr (fields', num_reference_fields, field_offset') \<Rightarrow>
              (case hide_referent klass is_static fields' num_fields num_reference_fields of
                 Inl a \<Rightarrow> Inl a
               | Inr num_reference_fields' \<Rightarrow>
                   update_klass klass is_static fields' num_reference_fields' field_offset')))"

text \<open>\<^verbatim>\<open>ClassLinker::SizeOfClass\<close>.  The argument is the list of the type descriptors of the
  static fields of the class data, in the order of the iterator (empty when the class has no
  class data); \<open>sizeof_Class\<close> is \<^verbatim>\<open>sizeof(mirror::Class)\<close>.  The three counters are
  \<^verbatim>\<open>size_t\<close> and the size is \<^verbatim>\<open>uint32_t\<close>: the sums are taken in 32 bits.\<close>

fun count_static_fields :: "string list \<Rightarrow> nat \<times> nat \<times> nat \<Rightarrow> nat \<times> nat \<times> nat" where
  "count_static_fields [] (num_ref, num_32, num_64) = (num_ref, num_32, num_64)"
| "count_static_fields (d # ds) (num_ref, num_32, num_64) =
     (let c = (case d of [] \<Rightarrow> CHR 0x00 | c # _ \<Rightarrow> c)
      in if c = CHR ''L'' \<or> c = CHR ''['' then count_static_fields ds (num_ref + 1, num_32, num_64)
         else if c = CHR ''J'' \<or> c = CHR ''D''
         then count_static_fields ds (num_ref, num_32, num_64 + 1)
         else count_static_fields ds (num_ref, num_32 + 1, num_64))"

definition SizeOfClass :: "32 word \<Rightarrow> string list \<Rightarrow> 32 word" where
  "SizeOfClass sizeof_Class static_field_descriptors =
     (case count_static_fields static_field_descriptors (0, 0, 0) of
        (num_ref, num_32, num_64) \<Rightarrow>
          (let size = sizeof_Class;
               size = size + of_nat num_ref * 4;
               (num_32, size) =
                 (if num_64 \<noteq> 0 \<and> size \<noteq> RoundUp8 size
                  then ((if num_32 \<noteq> 0 then num_32 - 1 else num_32), size + 4)
                  else (num_32, size));
               size = size + of_nat num_64 * 8;
               size = size + of_nat num_32 * 4
           in size))"

text \<open>\<^verbatim>\<open>ClassLinker::LinkStaticFields\<close>: the class size set at allocation must be the one
  the layout computes.\<close>

definition LinkStaticFields ::
  "(ArtField list \<Rightarrow> ArtField list) \<Rightarrow> 32 word \<Rightarrow> (nat \<Rightarrow> Class) \<Rightarrow> Class \<Rightarrow> abort + Class" where
  "LinkStaticFields std_sort Class_FieldsOffset heap klass =
     (let allocated_class_size = class_size klass
      in case LinkFields std_sort Class_FieldsOffset heap klass True of
           Inl a \<Rightarrow> Inl a
         | Inr klass' \<Rightarrow>
             if allocated_class_size \<noteq> class_size klass' then Inl Aborted else Inr klass')"

definition LinkInstanceFields ::
  "(ArtField list \<Rightarrow> ArtField list) \<Rightarrow> 32 word \<Rightarrow> (nat \<Rightarrow> Class) \<Rightarrow> Class \<Rightarrow> abort + Class" where
  "LinkInstanceFields std_sort Class_FieldsOffset heap klass =
     LinkFields std_sort Class_FieldsOffset heap klass False"


subsection \<open>The class table: \<^verbatim>\<open>Hash\<close>, \<^verbatim>\<open>InsertClass\<close>, \<^verbatim>\<open>LookupClass\<close>\<close>

text \<open>\<^verbatim>\<open>Hash\<close>: \<^verbatim>\<open>hash = hash * 31 + *s\<close> over the characters, in \<^verbatim>\<open>size_t\<close>.  The width of
  \<^verbatim>\<open>size_t\<close> and whether plain \<^verbatim>\<open>char\<close> is signed are fixed by the target that the runtime is
  built for: they are the parameter \<open>pf\<close> of \<open>Hash\<close> and of the functions that call it.
  A \<^verbatim>\<open>size_t\<close> is a natural number below \<open>2 ^ size_t_bits\<close>; \<^verbatim>\<open>*s\<close> is promoted to \<^verbatim>\<open>int\<close>
  (a negative one for a signed \<^verbatim>\<open>char\<close> from 128 on) and added modulo \<open>2 ^ size_t_bits\<close>.\<close>

record Platform =
  size_t_bits :: nat
  char_is_signed :: bool

type_synonym size_t = nat

definition char_value :: "Platform \<Rightarrow> char \<Rightarrow> int" where
  "char_value pf c =
     (if char_is_signed pf \<and> 128 \<le> (of_char c :: nat) then int (of_char c) - 256
      else int (of_char c))"

fun Hash_loop :: "Platform \<Rightarrow> string \<Rightarrow> size_t \<Rightarrow> size_t" where
  "Hash_loop pf [] hash = hash"
| "Hash_loop pf (c # s) hash =
     Hash_loop pf s (nat ((int hash * 31 + char_value pf c) mod 2 ^ size_t_bits pf))"

definition Hash :: "Platform \<Rightarrow> string \<Rightarrow> size_t" where
  "Hash pf s = Hash_loop pf s 0"

text \<open>The state of the linker that the class table functions use.  \<open>class_table\<close> is the
  \<^verbatim>\<open>std::multimap\<close> from hash to class, as the list of its entries in the order of insertion:
  the entries of one key are visited in that order.  A dex cache of the boot image is the list
  of its type ids, each with its descriptor and the class resolved for it (\<^verbatim>\<open>NULL\<close> when
  unresolved); \<open>image_dex_caches = None\<close> is a heap without image space.\<close>

type_synonym DexCache = "(string \<times> nat option) list"

record ClassLinker =
  class_table :: "(size_t \<times> nat) list"
  new_class_roots :: "(size_t \<times> nat) list"
  log_new_class_table_roots :: bool
  dex_cache_image_class_lookup_required :: bool
  failed_dex_cache_class_lookups :: int
  image_dex_caches :: "DexCache list option"

text \<open>\<^verbatim>\<open>LookupClassFromTableLocked\<close>: the first entry under the hash whose class has the
  loader and the descriptor.\<close>

fun lookup_entries ::
  "(nat \<Rightarrow> Class) \<Rightarrow> (size_t \<times> nat) list \<Rightarrow> string \<Rightarrow> nat option \<Rightarrow> size_t \<Rightarrow> nat option" where
  "lookup_entries heap [] d loader hash = None"
| "lookup_entries heap ((h, klass) # entries) d loader hash =
     (if h = hash \<and> class_loader (heap klass) = loader \<and> d = descriptor (heap klass)
      then Some klass
      else lookup_entries heap entries d loader hash)"

definition LookupClassFromTableLocked ::
  "(nat \<Rightarrow> Class) \<Rightarrow> ClassLinker \<Rightarrow> string \<Rightarrow> nat option \<Rightarrow> size_t \<Rightarrow> nat option" where
  "LookupClassFromTableLocked heap cl d loader hash =
     lookup_entries heap (class_table cl) d loader hash"

text \<open>\<^verbatim>\<open>InsertClass\<close>: the existing entry when there is one, else the class is inserted (and
  logged as a new root when roots are logged) and the result is \<^verbatim>\<open>NULL\<close>.\<close>

definition InsertClass ::
  "(nat \<Rightarrow> Class) \<Rightarrow> ClassLinker \<Rightarrow> string \<Rightarrow> nat \<Rightarrow> size_t \<Rightarrow> nat option \<times> ClassLinker" where
  "InsertClass heap cl d klass hash =
     (case LookupClassFromTableLocked heap cl d (class_loader (heap klass)) hash of
        Some existing \<Rightarrow> (Some existing, cl)
      | None \<Rightarrow>
          (None, cl\<lparr>class_table := class_table cl @ [(hash, klass)],
                    new_class_roots :=
                      (if log_new_class_table_roots cl then new_class_roots cl @ [(hash, klass)]
                       else new_class_roots cl)\<rparr>))"

text \<open>\<^verbatim>\<open>LookupClassFromImage\<close>: the first dex cache of the image whose dex file has a type id
  with the descriptor and a class resolved for it.\<close>

fun find_type :: "DexCache \<Rightarrow> string \<Rightarrow> nat option" where
  "find_type [] d = None"
| "find_type ((d', klass) # types) d = (if d' = d then klass else find_type types d)"

fun lookup_dex_caches :: "DexCache list \<Rightarrow> string \<Rightarrow> nat option" where
  "lookup_dex_caches [] d = None"
| "lookup_dex_caches (dex_cache # dex_caches) d =
     (case find_type dex_cache d of
        Some klass \<Rightarrow> Some klass
      | None \<Rightarrow> lookup_dex_caches dex_caches d)"

definition LookupClassFromImage :: "ClassLinker \<Rightarrow> string \<Rightarrow> abort + nat option" where
  "LookupClassFromImage cl d =
     (case image_dex_caches cl of
        None \<Rightarrow> Inl Aborted
      | Some dex_caches \<Rightarrow> Inr (lookup_dex_caches dex_caches d))"

text \<open>\<^verbatim>\<open>MoveImageClassesToClassTable\<close>: every resolved type of every dex cache of the image
  goes into the table under the hash of its own descriptor, unless the table has an entry for
  that descriptor and the bootstrap loader, which must then be the same class.\<close>

fun move_types ::
  "Platform \<Rightarrow> (nat \<Rightarrow> Class) \<Rightarrow> nat option list \<Rightarrow> ClassLinker \<Rightarrow> abort + ClassLinker" where
  "move_types pf heap [] cl = Inr cl"
| "move_types pf heap (None # types) cl = move_types pf heap types cl"
| "move_types pf heap (Some klass # types) cl =
     (let d = descriptor (heap klass); hash = Hash pf d
      in case LookupClassFromTableLocked heap cl d None hash of
           Some existing \<Rightarrow>
             if existing = klass then move_types pf heap types cl else Inl Aborted
         | None \<Rightarrow>
             move_types pf heap types
               (cl\<lparr>class_table := class_table cl @ [(hash, klass)],
                    new_class_roots :=
                      (if log_new_class_table_roots cl then new_class_roots cl @ [(hash, klass)]
                       else new_class_roots cl)\<rparr>))"

fun move_dex_caches ::
  "Platform \<Rightarrow> (nat \<Rightarrow> Class) \<Rightarrow> DexCache list \<Rightarrow> ClassLinker \<Rightarrow> abort + ClassLinker" where
  "move_dex_caches pf heap [] cl = Inr cl"
| "move_dex_caches pf heap (dex_cache # dex_caches) cl =
     (case move_types pf heap (map snd dex_cache) cl of
        Inl a \<Rightarrow> Inl a
      | Inr cl' \<Rightarrow> move_dex_caches pf heap dex_caches cl')"

definition MoveImageClassesToClassTable ::
  "Platform \<Rightarrow> (nat \<Rightarrow> Class) \<Rightarrow> ClassLinker \<Rightarrow> abort + ClassLinker" where
  "MoveImageClassesToClassTable pf heap cl =
     (if \<not> dex_cache_image_class_lookup_required cl then Inr cl
      else (case image_dex_caches cl of
              None \<Rightarrow> Inl Aborted
            | Some dex_caches \<Rightarrow>
                (case move_dex_caches pf heap dex_caches cl of
                   Inl a \<Rightarrow> Inl a
                 | Inr cl' \<Rightarrow> Inr (cl'\<lparr>dex_cache_image_class_lookup_required := False\<rparr>))))"

definition kMaxFailedDexCacheLookups :: int where
  "kMaxFailedDexCacheLookups = 1000"

text \<open>\<^verbatim>\<open>LookupClass\<close>.\<close>

definition LookupClass ::
  "Platform \<Rightarrow> (nat \<Rightarrow> Class) \<Rightarrow> ClassLinker \<Rightarrow> string \<Rightarrow> nat option \<Rightarrow> abort + (nat option \<times> ClassLinker)" where
  "LookupClass pf heap cl d loader =
     (let hash = Hash pf d
      in case LookupClassFromTableLocked heap cl d loader hash of
           Some result \<Rightarrow> Inr (Some result, cl)
         | None \<Rightarrow>
             if loader \<noteq> None \<or> \<not> dex_cache_image_class_lookup_required cl
             then Inr (None, cl)
             else (case LookupClassFromImage cl d of
                     Inl a \<Rightarrow> Inl a
                   | Inr (Some result) \<Rightarrow>
                       Inr (Some result, snd (InsertClass heap cl d result hash))
                   | Inr None \<Rightarrow>
                       (let cl1 = cl\<lparr>failed_dex_cache_class_lookups :=
                                         failed_dex_cache_class_lookups cl + 1\<rparr>
                        in if failed_dex_cache_class_lookups cl1 > kMaxFailedDexCacheLookups
                           then (case MoveImageClassesToClassTable pf heap cl1 of
                                   Inl a \<Rightarrow> Inl a
                                 | Inr cl2 \<Rightarrow> Inr (None, cl2))
                           else Inr (None, cl1))))"

text \<open>A sequence of lookups, each on the state the one before left.\<close>

fun run_lookups ::
  "Platform \<Rightarrow> (nat \<Rightarrow> Class) \<Rightarrow> ClassLinker \<Rightarrow> (string \<times> nat option) list \<Rightarrow> abort + ClassLinker" where
  "run_lookups pf heap cl [] = Inr cl"
| "run_lookups pf heap cl ((d, loader) # requests) =
     (case LookupClass pf heap cl d loader of
        Inl a \<Rightarrow> Inl a
      | Inr (result, cl') \<Rightarrow> run_lookups pf heap cl' requests)"

subsection \<open>Exceptions and threads\<close>

text \<open>A Java exception object: the descriptor of its class, its detail message and its
  cause.  A thread: its id and the exception pending on it.\<close>

datatype Throwable =
  Throwable (throwable_class: string) (detail_message: string) (throwable_cause: "Throwable option")

record Thread =
  tid :: nat
  exception :: "Throwable option"

text \<open>Modelled from the spec: \<^verbatim>\<open>Thread::ThrowNewException\<close> and
  \<^verbatim>\<open>Thread::ThrowNewWrappedException\<close> are declared in thread.h, which is not part of the
  sources at hand.  "All errors are value-level exceptions recorded on the calling thread":
  the first records a new exception of the class named by the descriptor; the second does the
  same with the exception that was pending as the cause ("wrapped in an initializer-specific
  wrapper type").  The message is kept as the descriptor it is printed from.\<close>

definition ThrowNewException :: "Thread \<Rightarrow> string \<Rightarrow> string \<Rightarrow> Thread" where
  "ThrowNewException self exception_class_descriptor msg =
     self\<lparr>exception := Some (Throwable exception_class_descriptor msg None)\<rparr>"

definition ThrowNewWrappedException :: "Thread \<Rightarrow> string \<Rightarrow> string \<Rightarrow> Thread" where
  "ThrowNewWrappedException self exception_class_descriptor msg =
     self\<lparr>exception := Some (Throwable exception_class_descriptor msg (exception self))\<rparr>"

text \<open>Modelled from the spec: \<^verbatim>\<open>mirror::Class::SetStatus\<close> is defined in mirror/class.cc,
  which is not part of the sources at hand; it moves the class to the status given.\<close>

definition SetStatus :: "Class \<Rightarrow> Status \<Rightarrow> Class" where
  "SetStatus c new_status = c\<lparr>status := new_status\<rparr>"


text \<open>\<^verbatim>\<open>ThrowEarlierClassFailure\<close>.  The class must be erroneous; the exception is of the
  recorded verify-error class when there is one and a \<^verbatim>\<open>NoClassDefFoundError\<close> otherwise.\<close>

definition ThrowEarlierClassFailure :: "(nat \<Rightarrow> Class) \<Rightarrow> Thread \<Rightarrow> nat \<Rightarrow> abort + Thread" where
  "ThrowEarlierClassFailure heap self c =
     (if \<not> IsErroneous (heap c) then Inl Aborted
      else (case verify_error_class (heap c) of
              Some ve \<Rightarrow>
                Inr (ThrowNewException self (descriptor (heap ve)) (descriptor (heap c)))
            | None \<Rightarrow>
                Inr (ThrowNewException self ''Ljava/lang/NoClassDefFoundError;''
                       (descriptor (heap c)))))"

subsection \<open>\<^verbatim>\<open>EnsureResolved\<close> and \<^verbatim>\<open>DefineClass\<close>\<close>

text \<open>The wait loop of \<^verbatim>\<open>EnsureResolved\<close>: \<^verbatim>\<open>while (!IsResolved() && !IsErroneous()) Wait()\<close>.
  What the other threads do to the class is the list \<open>wakeups\<close>: the class object as the
  thread finds it after each wait.  When the list ends with the class neither resolved nor
  erroneous the thread waits for ever: the result \<open>None\<close>.\<close>

fun wait_until_resolved :: "Class list \<Rightarrow> Class \<Rightarrow> Class option" where
  "wait_until_resolved [] c = (if \<not> IsResolved c \<and> \<not> IsErroneous c then None else Some c)"
| "wait_until_resolved (c' # wakeups) c =
     (if \<not> IsResolved c \<and> \<not> IsErroneous c then wait_until_resolved wakeups c' else Some c)"

text \<open>The end of \<^verbatim>\<open>EnsureResolved\<close>, after the wait: an erroneous class throws the earlier
  failure and the result is \<^verbatim>\<open>nullptr\<close>; else the class must be resolved and no exception
  pending, and it is the result.\<close>

definition return_resolved ::
  "Thread \<Rightarrow> (nat \<Rightarrow> Class) \<Rightarrow> nat \<Rightarrow> abort + (nat option \<times> Thread \<times> (nat \<Rightarrow> Class))" where
  "return_resolved self heap klass =
     (if IsErroneous (heap klass)
      then (case ThrowEarlierClassFailure heap self klass of
              Inl a \<Rightarrow> Inl a
            | Inr self' \<Rightarrow> Inr (None, self', heap))
      else if \<not> IsResolved (heap klass) then Inl Aborted
      else if exception self \<noteq> None then Inl Aborted
      else Inr (Some klass, self, heap))"

text \<open>\<^verbatim>\<open>EnsureResolved\<close>.  The result is \<open>None\<close> when the thread waits for ever; else the
  class or \<^verbatim>\<open>nullptr\<close>, the thread with the exception pending on it, and the store.\<close>

definition EnsureResolved ::
  "Class list \<Rightarrow> Thread \<Rightarrow> (nat \<Rightarrow> Class) \<Rightarrow> nat
     \<Rightarrow> (abort + (nat option \<times> Thread \<times> (nat \<Rightarrow> Class))) option" where
  "EnsureResolved wakeups self heap klass =
     (if \<not> IsResolved (heap klass) \<and> \<not> IsErroneous (heap klass)
      then (if \<not> IsResolved (heap klass) \<and> clinit_thread_id (heap klass) = tid self
            then Some (Inr (None,
                   ThrowNewException self ''Ljava/lang/ClassCircularityError;''
                     (descriptor (heap klass)),
                   heap(klass := SetStatus (heap klass) kStatusError)))
            else (case wait_until_resolved wakeups (heap klass) of
                    None \<Rightarrow> None
                  | Some c \<Rightarrow> Some (return_resolved self (heap(klass := c)) klass)))
      else Some (return_resolved self heap klass))"



subsection \<open>Class initialisation: \<^verbatim>\<open>CanWeInitializeClass\<close>, \<^verbatim>\<open>InitializeClass\<close>\<close>

text \<open>Modelled from the spec: the access flag constants are declared in modifiers.h, which is
  not part of the sources at hand.  The flags are "an access-flags bitmask"; the values are
  those of the class file format, and \<^verbatim>\<open>kAccMiranda\<close> is a bit of its own.\<close>

definition kAccPublic :: "32 word" where "kAccPublic = 0x0001"
definition kAccFinal :: "32 word" where "kAccFinal = 0x0010"
definition kAccInterface :: "32 word" where "kAccInterface = 0x0200"
definition kAccAbstract :: "32 word" where "kAccAbstract = 0x0400"
definition kAccMiranda :: "32 word" where "kAccMiranda = 0x8000"

definition IsInterface :: "Class \<Rightarrow> bool" where
  "IsInterface c = (access_flags c AND kAccInterface \<noteq> 0)"

text \<open>\<^verbatim>\<open>CanWeInitializeClass\<close>.  The recursion follows the superclass pointers of the store;
  the first argument bounds its depth.\<close>

primrec CanWeInitializeClass ::
  "nat \<Rightarrow> (nat \<Rightarrow> Class) \<Rightarrow> nat \<Rightarrow> bool \<Rightarrow> bool \<Rightarrow> bool option" where
  "CanWeInitializeClass 0 heap klass can_init_statics can_init_parents = None"
| "CanWeInitializeClass (Suc fuel) heap klass can_init_statics can_init_parents =
     (if can_init_statics \<and> can_init_parents then Some True
      else if \<not> can_init_statics \<and> class_initializer (heap klass) \<noteq> None then Some False
      else if \<not> can_init_statics \<and> sfields (heap klass) \<noteq> []
              \<and> static_values_off (heap klass) \<noteq> 0 then Some False
      else if \<not> IsInterface (heap klass) \<and> super_class (heap klass) \<noteq> None
      then (case super_class (heap klass) of
              None \<Rightarrow> Some True
            | Some super \<Rightarrow>
                if \<not> can_init_parents \<and> \<not> IsInitialized (heap super) then Some False
                else (case CanWeInitializeClass fuel heap super can_init_statics can_init_parents of
                        None \<Rightarrow> None
                      | Some False \<Rightarrow> Some False
                      | Some True \<Rightarrow> Some True))
      else Some True)"

text \<open>What \<^verbatim>\<open>InitializeClass\<close> calls and this development does not look into: whether the
  runtime is the compiler; \<^verbatim>\<open>VerifyClass\<close> (it runs the bytecode verifier);
  \<^verbatim>\<open>WaitForInitializeClass\<close> (it waits for another thread, \<open>None\<close> when for ever);
  \<^verbatim>\<open>ValidateSuperClassDescriptors\<close> (it compares signatures across class loaders and may
  throw); whether the class has encoded static values, and reading them into the fields;
  invoking the class initializer; and the JNI test \<^verbatim>\<open>IsInstanceOf(cause, java_lang_Error)\<close>.
  Code that runs (verifier, initializers) may change the thread and the store at will.\<close>

type_synonym init_result = "abort + (bool \<times> Thread \<times> (nat \<Rightarrow> Class))"

record Runtime =
  IsCompiler :: bool
  VerifyClass :: "nat \<Rightarrow> Thread \<Rightarrow> (nat \<Rightarrow> Class) \<Rightarrow> Thread \<times> (nat \<Rightarrow> Class)"
  WaitForInitializeClass :: "nat \<Rightarrow> Thread \<Rightarrow> (nat \<Rightarrow> Class) \<Rightarrow> init_result option"
  ValidateSuperClassDescriptors :: "nat \<Rightarrow> Thread \<Rightarrow> (nat \<Rightarrow> Class) \<Rightarrow> bool \<times> Thread"
  HasEncodedStaticValues :: "nat \<Rightarrow> bool"
  ReadStaticValues :: "nat \<Rightarrow> Thread \<Rightarrow> (nat \<Rightarrow> Class) \<Rightarrow> Thread \<times> (nat \<Rightarrow> Class)"
  Invoke :: "nat \<Rightarrow> Thread \<Rightarrow> (nat \<Rightarrow> Class) \<Rightarrow> Thread \<times> (nat \<Rightarrow> Class)"
  IsInstanceOf_Error :: "Throwable \<Rightarrow> bool"

text \<open>\<^verbatim>\<open>WrapExceptionInInitializer\<close>: the pending exception stays as it is when it is an
  instance of \<^verbatim>\<open>java.lang.Error\<close>, and becomes the cause of a new
  \<^verbatim>\<open>ExceptionInInitializerError\<close> (thrown with a \<^verbatim>\<open>NULL\<close> message) otherwise.\<close>

definition WrapExceptionInInitializer :: "Runtime \<Rightarrow> Thread \<Rightarrow> abort + Thread" where
  "WrapExceptionInInitializer env self =
     (case exception self of
        None \<Rightarrow> Inl Aborted
      | Some cause \<Rightarrow>
          (let is_error = IsInstanceOf_Error env cause;
               self1 = self\<lparr>exception := Some cause\<rparr>
           in if \<not> is_error
              then Inr (ThrowNewWrappedException self1 ''Ljava/lang/ExceptionInInitializerError;'' [])
              else Inr self1))"

text \<open>The first block of \<^verbatim>\<open>InitializeClass\<close> under the lock of the class, from the test for
  an erroneous class to the move to \<^verbatim>\<open>kStatusInitializing\<close>.  \<open>Inl\<close> is a return of
  \<^verbatim>\<open>InitializeClass\<close> (with \<open>None\<close> for a wait without end), \<open>Inr\<close> the thread and the store
  with which it goes on.\<close>

definition enter_initialization ::
  "Runtime \<Rightarrow> nat \<Rightarrow> Thread \<Rightarrow> (nat \<Rightarrow> Class)
     \<Rightarrow> init_result option + (Thread \<times> (nat \<Rightarrow> Class))" where
  "enter_initialization env klass self heap =
     (if IsInitialized (heap klass) then Inl (Some (Inr (True, self, heap)))
      else if IsErroneous (heap klass)
      then (case ThrowEarlierClassFailure heap self klass of
              Inl a \<Rightarrow> Inl (Some (Inl a))
            | Inr self' \<Rightarrow> Inl (Some (Inr (False, self', heap))))
      else if \<not> IsResolved (heap klass) then Inl (Some (Inl Aborted))
      else (case (if \<not> IsVerified (heap klass) then VerifyClass env klass self heap
                  else (self, heap)) of
              (self1, heap1) \<Rightarrow>
                if \<not> IsVerified (heap1 klass)
                then (if IsErroneous (heap1 klass)
                      then (if exception self1 = None then Inl (Some (Inl Aborted))
                            else Inl (Some (Inr (False, self1, heap1))))
                      else if \<not> IsCompiler env then Inl (Some (Inl Aborted))
                      else if status (heap1 klass) \<noteq> kStatusRetryVerificationAtRuntime
                      then Inl (Some (Inl Aborted))
                      else Inl (Some (Inr (False, self1, heap1))))
                else if status (heap1 klass) = kStatusInitializing
                then (if clinit_thread_id (heap1 klass) = tid self1
                      then Inl (Some (Inr (True, self1, heap1)))
                      else Inl (WaitForInitializeClass env klass self1 heap1))
                else (case ValidateSuperClassDescriptors env klass self1 heap1 of
                        (False, self2) \<Rightarrow>
                          Inl (Some (Inr (False, self2,
                                 heap1(klass := SetStatus (heap1 klass) kStatusError))))
                      | (True, self2) \<Rightarrow>
                          if status (heap1 klass) \<noteq> kStatusVerified then Inl (Some (Inl Aborted))
                          else Inr (self2,
                                 heap1(klass := SetStatus
                                    ((heap1 klass)\<lparr>clinit_thread_id := tid self2\<rparr>)
                                    kStatusInitializing)))))"

text \<open>"Initialize super classes": \<open>initialize\<close> is the recursive call
  \<^verbatim>\<open>InitializeClass(sirt_super, can_init_statics, true)\<close>.\<close>

definition initialize_super ::
  "(nat \<Rightarrow> Thread \<Rightarrow> (nat \<Rightarrow> Class) \<Rightarrow> init_result option) \<Rightarrow> bool \<Rightarrow> nat \<Rightarrow> Thread
     \<Rightarrow> (nat \<Rightarrow> Class) \<Rightarrow> init_result option + (Thread \<times> (nat \<Rightarrow> Class))" where
  "initialize_super initialize can_init_parents klass self heap =
     (if \<not> IsInterface (heap klass) \<and> super_class (heap klass) \<noteq> None
      then (case super_class (heap klass) of
              None \<Rightarrow> Inr (self, heap)
            | Some super \<Rightarrow>
                if \<not> IsInitialized (heap super)
                then (if IsInterface (heap super) then Inl (Some (Inl Aborted))
                      else if \<not> can_init_parents then Inl (Some (Inl Aborted))
                      else (case initialize super self heap of
                              None \<Rightarrow> Inl None
                            | Some (Inl a) \<Rightarrow> Inl (Some (Inl a))
                            | Some (Inr (super_initialized, self', heap')) \<Rightarrow>
                                if \<not> super_initialized
                                then (if \<not> (IsErroneous (heap' super) \<and> exception self' \<noteq> None)
                                      then Inl (Some (Inl Aborted))
                                      else Inl (Some (Inr (False, self',
                                             heap'(klass := SetStatus (heap' klass) kStatusError)))))
                                else Inr (self', heap')))
                else Inr (self, heap))
      else Inr (self, heap))"

text \<open>The static initializers: the encoded static values, then the class initializer.\<close>

definition initialize_statics ::
  "Runtime \<Rightarrow> bool \<Rightarrow> nat \<Rightarrow> Thread \<Rightarrow> (nat \<Rightarrow> Class) \<Rightarrow> abort + (Thread \<times> (nat \<Rightarrow> Class))" where
  "initialize_statics env can_init_statics klass self heap =
     (case (if sfields (heap klass) \<noteq> [] \<and> HasEncodedStaticValues env klass
            then (if \<not> can_init_statics then Inl Aborted
                  else Inr (ReadStaticValues env klass self heap))
            else Inr (self, heap)) of
        Inl a \<Rightarrow> Inl a
      | Inr (self1, heap1) \<Rightarrow>
          (case class_initializer (heap1 klass) of
             None \<Rightarrow> Inr (self1, heap1)
           | Some clinit \<Rightarrow>
               if \<not> can_init_statics then Inl Aborted
               else Inr (Invoke env clinit self1 heap1)))"

text \<open>The last block under the lock: a pending exception is wrapped and the class becomes
  erroneous, else the class is initialized.\<close>

definition finish_initialization ::
  "Runtime \<Rightarrow> nat \<Rightarrow> Thread \<Rightarrow> (nat \<Rightarrow> Class) \<Rightarrow> init_result" where
  "finish_initialization env klass self heap =
     (if exception self \<noteq> None
      then (case WrapExceptionInInitializer env self of
              Inl a \<Rightarrow> Inl a
            | Inr self' \<Rightarrow> Inr (False, self', heap(klass := SetStatus (heap klass) kStatusError)))
      else Inr (True, self, heap(klass := SetStatus (heap klass) kStatusInitialized)))"

text \<open>\<^verbatim>\<open>InitializeClass\<close>.  The first argument bounds the depth of the recursion into the
  superclasses; the second test of \<^verbatim>\<open>IsInitialized\<close>, under the lock, is part of
  \<open>enter_initialization\<close>.\<close>

primrec InitializeClass ::
  "nat \<Rightarrow> Runtime \<Rightarrow> bool \<Rightarrow> bool \<Rightarrow> nat \<Rightarrow> Thread \<Rightarrow> (nat \<Rightarrow> Class) \<Rightarrow> init_result option" where
  "InitializeClass 0 env can_init_statics can_init_parents klass self heap = None"
| "InitializeClass (Suc fuel) env can_init_statics can_init_parents klass self heap =
     (if IsInitialized (heap klass) then Some (Inr (True, self, heap))
      else (case CanWeInitializeClass (Suc fuel) heap klass can_init_statics can_init_parents of
              None \<Rightarrow> None
            | Some False \<Rightarrow> Some (Inr (False, self, heap))
            | Some True \<Rightarrow>
                (case enter_initialization env klass self heap of
                   Inl r \<Rightarrow> r
                 | Inr (self2, heap2) \<Rightarrow>
                     (case initialize_super (InitializeClass fuel env can_init_statics True)
                             can_init_parents klass self2 heap2 of
                        Inl r \<Rightarrow> r
                      | Inr (self3, heap3) \<Rightarrow>
                          (case initialize_statics env can_init_statics klass self3 heap3 of
                             Inl a \<Rightarrow> Some (Inl a)
                           | Inr (self4, heap4) \<Rightarrow>
                               Some (finish_initialization env klass self4 heap4))))))"

subsection \<open>Method tables: \<^verbatim>\<open>LinkVirtualMethods\<close>, \<^verbatim>\<open>LinkInterfaceMethods\<close>\<close>

text \<open>\<^verbatim>\<open>mirror::ArtMethod\<close> as the linker sees it.  Methods are shared by pointer between the
  method arrays of the classes, the vtables and the interface tables: they live in a store,
  while the arrays themselves are lists of addresses.  The store also allocates:
  \<open>next_address\<close> is the address that the next new method gets, and \<open>free_allocations\<close> the
  number of allocations that succeed before the allocator returns \<^verbatim>\<open>NULL\<close> (an
  \<^verbatim>\<open>OutOfMemoryError\<close> is then pending).\<close>

record ArtMethod =
  method_name :: string
  method_signature :: string
  declaring_class :: nat
  method_access_flags :: "32 word"
  method_index :: nat
  dex_method_index :: "32 word"

record Heap =
  method_at :: "nat \<Rightarrow> ArtMethod"
  next_address :: nat
  free_allocations :: nat

text \<open>How linking ends when it does not succeed: the process dies (a failed \<^verbatim>\<open>CHECK\<close>, a
  \<^verbatim>\<open>NULL\<close> dereference), or the function returns \<^verbatim>\<open>false\<close> with an exception of the class
  named pending.\<close>

datatype failure = Check_failed | Exception_pending string

definition AllocArray :: "Heap \<Rightarrow> failure + Heap" where
  "AllocArray h =
     (if free_allocations h = 0 then Inl (Exception_pending ''Ljava/lang/OutOfMemoryError;'')
      else Inr (h\<lparr>free_allocations := free_allocations h - 1\<rparr>))"

text \<open>\<^verbatim>\<open>Object::Clone\<close>: a copy of the method at a new address.\<close>

definition Clone :: "Heap \<Rightarrow> nat \<Rightarrow> failure + (nat \<times> Heap)" where
  "Clone h m =
     (if free_allocations h = 0 then Inl (Exception_pending ''Ljava/lang/OutOfMemoryError;'')
      else Inr (next_address h,
                h\<lparr>method_at := (method_at h)(next_address h := method_at h m),
                   next_address := next_address h + 1,
                   free_allocations := free_allocations h - 1\<rparr>))"

text \<open>Modelled from the spec: \<^verbatim>\<open>ArtMethod::SetMethodIndex\<close>, the flag tests of
  \<^verbatim>\<open>ArtMethod\<close> and \<^verbatim>\<open>MethodHelper::HasSameNameAndSignature\<close> are declared in
  mirror/art_method.h and object_utils.h, which are not part of the sources at hand.  The
  "table must fit a 16-bit index space": the index is kept in 16 bits (the linker masks it
  with \<^verbatim>\<open>0xFFFF\<close> itself where the value may be larger).  The flags are tests of the
  access-flags bitmask.  A "name+signature match" is equality of both.\<close>

definition SetMethodIndex :: "Heap \<Rightarrow> nat \<Rightarrow> nat \<Rightarrow> Heap" where
  "SetMethodIndex h m new_method_index =
     h\<lparr>method_at := (method_at h)
          (m := (method_at h m)\<lparr>method_index := new_method_index mod 65536\<rparr>)\<rparr>"

definition IsFinal :: "ArtMethod \<Rightarrow> bool" where
  "IsFinal m = (method_access_flags m AND kAccFinal \<noteq> 0)"

definition IsAbstract :: "ArtMethod \<Rightarrow> bool" where
  "IsAbstract m = (method_access_flags m AND kAccAbstract \<noteq> 0)"

definition IsPublic :: "ArtMethod \<Rightarrow> bool" where
  "IsPublic m = (method_access_flags m AND kAccPublic \<noteq> 0)"

definition HasSameNameAndSignature :: "ArtMethod \<Rightarrow> ArtMethod \<Rightarrow> bool" where
  "HasSameNameAndSignature m1 m2 =
     (method_name m1 = method_name m2 \<and> method_signature m1 = method_signature m2)"

text \<open>The inner loop of \<^verbatim>\<open>LinkVirtualMethods\<close>, \<^verbatim>\<open>for (; j < actual_count; ++j)\<close>, over the
  slots from \<^verbatim>\<open>j\<close> on.  \<open>CanAccessMember\<close> is \<^verbatim>\<open>klass->CanAccessMember\<close>, a function of the
  declaring class and the access flags of the method in the slot (mirror/class.h is not part
  of the sources at hand).  The result is the slot at which the loop breaks, \<open>None\<close> when it
  runs to \<^verbatim>\<open>actual_count\<close>, or the \<^verbatim>\<open>LinkageError\<close> for a final method.\<close>

fun scan_vtable ::
  "(nat \<Rightarrow> 32 word \<Rightarrow> bool) \<Rightarrow> Heap \<Rightarrow> nat \<Rightarrow> nat list \<Rightarrow> nat \<Rightarrow> failure + nat option" where
  "scan_vtable CanAccessMember h local_method [] j = Inr None"
| "scan_vtable CanAccessMember h local_method (super_method # slots) j =
     (if HasSameNameAndSignature (method_at h local_method) (method_at h super_method)
      then (if CanAccessMember (declaring_class (method_at h super_method))
                 (method_access_flags (method_at h super_method))
            then (if IsFinal (method_at h super_method)
                  then Inl (Exception_pending ''Ljava/lang/LinkageError;'')
                  else Inr (Some j))
            else scan_vtable CanAccessMember h local_method slots (j + 1))
      else scan_vtable CanAccessMember h local_method slots (j + 1))"

text \<open>The body of the outer loop for one virtual method of the class.  The table is the
  list of the \<^verbatim>\<open>actual_count\<close> slots filled so far (the array itself is allocated with
  \<^verbatim>\<open>max_count\<close> slots and shrunk at the end).\<close>

definition link_virtual_method ::
  "(nat \<Rightarrow> 32 word \<Rightarrow> bool) \<Rightarrow> nat \<Rightarrow> nat list \<times> Heap \<Rightarrow> failure + (nat list \<times> Heap)" where
  "link_virtual_method CanAccessMember local_method st =
     (case st of (vt, h) \<Rightarrow>
        (case scan_vtable CanAccessMember h local_method vt 0 of
           Inl e \<Rightarrow> Inl e
         | Inr (Some j) \<Rightarrow> Inr (vt[j := local_method], SetMethodIndex h local_method j)
         | Inr None \<Rightarrow> Inr (vt @ [local_method], SetMethodIndex h local_method (length vt))))"

fun link_virtual_methods ::
  "(nat \<Rightarrow> 32 word \<Rightarrow> bool) \<Rightarrow> nat list \<Rightarrow> nat list \<times> Heap \<Rightarrow> failure + (nat list \<times> Heap)" where
  "link_virtual_methods CanAccessMember [] st = Inr st"
| "link_virtual_methods CanAccessMember (local_method # methods) st =
     (case link_virtual_method CanAccessMember local_method st of
        Inl e \<Rightarrow> Inl e
      | Inr st' \<Rightarrow> link_virtual_methods CanAccessMember methods st')"

text \<open>The loop of the class without superclass: slot \<^verbatim>\<open>i\<close> holds virtual method \<^verbatim>\<open>i\<close>, whose
  index is \<^verbatim>\<open>i & 0xFFFF\<close>.\<close>

fun set_root_indices :: "nat list \<Rightarrow> nat \<Rightarrow> Heap \<Rightarrow> Heap" where
  "set_root_indices [] i h = h"
| "set_root_indices (virtual_method # methods) i h =
     set_root_indices methods (i + 1) (SetMethodIndex h virtual_method (i mod 65536))"

text \<open>\<^verbatim>\<open>ClassLinker::LinkVirtualMethods\<close>.  \<open>klass_is_Object\<close> is the comparison of \<^verbatim>\<open>klass\<close>
  with the class root \<^verbatim>\<open>java.lang.Object\<close>.  The lengths of arrays are non-negative
  \<^verbatim>\<open>int32_t\<close>, so \<^verbatim>\<open>max_count\<close> does not wrap and both \<^verbatim>\<open>CHECK_LE(actual_count, max_count)\<close>
  hold.  A superclass without vtable is a \<^verbatim>\<open>NULL\<close> dereference.\<close>

definition LinkVirtualMethods ::
  "(nat \<Rightarrow> 32 word \<Rightarrow> bool) \<Rightarrow> bool \<Rightarrow> (nat \<Rightarrow> Class) \<Rightarrow> Class \<Rightarrow> Heap \<Rightarrow> failure + (Class \<times> Heap)" where
  "LinkVirtualMethods CanAccessMember klass_is_Object heap klass h =
     (case super_class klass of
        Some super \<Rightarrow>
          (case vtable (heap super) of
             None \<Rightarrow> Inl Check_failed
           | Some super_vtable \<Rightarrow>
               (let max_count = length (virtual_methods klass) + length super_vtable
                in case AllocArray h of
                     Inl e \<Rightarrow> Inl e
                   | Inr h1 \<Rightarrow>
                       (case link_virtual_methods CanAccessMember (virtual_methods klass)
                               (super_vtable, h1) of
                          Inl e \<Rightarrow> Inl e
                        | Inr (vt, h2) \<Rightarrow>
                            if \<not> length vt < 65536
                            then Inl (Exception_pending ''Ljava/lang/ClassFormatError;'')
                            else (case (if length vt < max_count then AllocArray h2 else Inr h2) of
                                    Inl e \<Rightarrow> Inl e
                                  | Inr h3 \<Rightarrow> Inr (klass\<lparr>vtable := Some vt\<rparr>, h3)))))
      | None \<Rightarrow>
          if \<not> klass_is_Object then Inl Check_failed
          else (let num_virtual_methods = length (virtual_methods klass)
                in if \<not> num_virtual_methods < 65536
                   then Inl (Exception_pending ''Ljava/lang/ClassFormatError;'')
                   else (case AllocArray h of
                           Inl e \<Rightarrow> Inl e
                         | Inr h1 \<Rightarrow>
                             Inr (klass\<lparr>vtable := Some (virtual_methods klass)\<rparr>,
                                  set_root_indices (virtual_methods klass) 0 h1))))"

text \<open>What \<^verbatim>\<open>LinkInterfaceMethods\<close> takes from the runtime: the size of the interface method
  table (\<^verbatim>\<open>kImtSize\<close>, a constant of a header that is not part of the sources at hand), the
  default table and the conflict method.\<close>

record Imt_runtime =
  kImtSize :: nat
  default_imt :: "nat list"
  imt_conflict_method :: nat

definition GetIfTableCount :: "Class \<Rightarrow> nat" where
  "GetIfTableCount c = (case iftable c of None \<Rightarrow> 0 | Some t \<Rightarrow> length t)"

text \<open>"Flatten the interface inheritance hierarchy": the super-interfaces of an interface
  that are not in the table yet, and the loop over the direct interfaces.\<close>

fun add_super_interfaces :: "nat list \<Rightarrow> nat list \<Rightarrow> nat list" where
  "add_super_interfaces [] table = table"
| "add_super_interfaces (super_interface # rest) table =
     add_super_interfaces rest
       (if super_interface \<in> set table then table else table @ [super_interface])"

fun flatten_interfaces :: "(nat \<Rightarrow> Class) \<Rightarrow> nat list \<Rightarrow> nat list \<Rightarrow> failure + nat list" where
  "flatten_interfaces heap [] table = Inr table"
| "flatten_interfaces heap (interface # rest) table =
     (if \<not> IsInterface (heap interface)
      then Inl (Exception_pending ''Ljava/lang/IncompatibleClassChangeError;'')
      else if interface \<in> set table then flatten_interfaces heap rest table
      else flatten_interfaces heap rest
             (add_super_interfaces
                (case iftable (heap interface) of None \<Rightarrow> [] | Some t \<Rightarrow> map fst t)
                (table @ [interface])))"

text \<open>The first part of \<^verbatim>\<open>LinkInterfaceMethods\<close>, up to \<^verbatim>\<open>klass->SetIfTable\<close> and the test for an
  interface.  \<open>interfaces\<close> is the argument of that name (\<^verbatim>\<open>NULL\<close> except for proxy classes).
  The result says whether the function returns here (\<open>True\<close>) or goes on to the method
  arrays.\<close>

definition link_iftable ::
  "Imt_runtime \<Rightarrow> (nat \<Rightarrow> Class) \<Rightarrow> Class \<Rightarrow> nat list option \<Rightarrow> Heap
     \<Rightarrow> failure + (bool \<times> Class \<times> Heap)" where
  "link_iftable rt heap klass interfaces h =
     (let klass0 = klass\<lparr>imtable := default_imt rt\<rparr>;
          super_iftable = (case super_class klass of None \<Rightarrow> None | Some super \<Rightarrow> iftable (heap super));
          super_ifcount = (case super_class klass of None \<Rightarrow> 0
                           | Some super \<Rightarrow> GetIfTableCount (heap super));
          direct = (case interfaces of None \<Rightarrow> direct_interfaces klass | Some a \<Rightarrow> a);
          ifcount = super_ifcount + length direct
                      + sum_list (map (\<lambda>interface. GetIfTableCount (heap interface)) direct)
      in if ifcount = 0 then Inr (True, klass0, h)
         else if ifcount = super_ifcount
                 \<and> \<not> (\<exists>entry \<in> set (case super_iftable of None \<Rightarrow> [] | Some t \<Rightarrow> t).
                          (case snd entry of None \<Rightarrow> False | Some a \<Rightarrow> length a > 0))
         then Inr (True, klass0\<lparr>iftable := super_iftable\<rparr>, h)
         else (case AllocArray h of
                 Inl e \<Rightarrow> Inl e
               | Inr h1 \<Rightarrow>
                   (case flatten_interfaces heap direct
                           (case super_iftable of None \<Rightarrow> [] | Some t \<Rightarrow> map fst t) of
                      Inl e \<Rightarrow> Inl e
                    | Inr table \<Rightarrow>
                        (case (if length table < ifcount then AllocArray h1 else Inr h1) of
                           Inl e \<Rightarrow> Inl e
                         | Inr h2 \<Rightarrow>
                             (let klass1 = klass0\<lparr>iftable := Some (map (\<lambda>i. (i, None)) table)\<rparr>
                              in Inr (IsInterface klass1, klass1, h2))))))"

text \<open>The state of the loops over the interface methods: the store, the interface method
  table under construction (\<^verbatim>\<open>NULL\<close> entries are \<open>None\<close>), \<^verbatim>\<open>imtable_changed\<close> and
  \<^verbatim>\<open>miranda_list\<close>.\<close>

record link_state =
  ls_heap :: Heap
  ls_imtable :: "nat option list"
  ls_imtable_changed :: bool
  ls_miranda_list :: "nat list"

text \<open>The loop \<^verbatim>\<open>for (k = vtable->GetLength() - 1; k >= 0; --k)\<close> up to its \<^verbatim>\<open>break\<close>: the
  method of the vtable that is nearest to its end among those with the name and signature of
  the interface method.\<close>

definition find_vtable_method :: "Heap \<Rightarrow> nat list \<Rightarrow> nat \<Rightarrow> nat option" where
  "find_vtable_method h vt interface_method =
     find (\<lambda>vtable_method. HasSameNameAndSignature (method_at h interface_method)
                               (method_at h vtable_method)) (rev vt)"

text \<open>The body of the loop over the methods of one interface, for one interface method: the
  vtable is searched from its end; a method found must be abstract or public, goes into the
  method array and into the interface method table (into an empty slot, else the conflict
  method goes there); without one, a miranda method of the list with the name and signature
  is taken, or the interface method is cloned into a new one.  The result is the new state
  and the entry of the method array.\<close>

definition link_interface_method ::
  "Imt_runtime \<Rightarrow> nat list \<Rightarrow> nat \<Rightarrow> link_state \<Rightarrow> failure + (link_state \<times> nat)" where
  "link_interface_method rt vt interface_method st =
     (let h = ls_heap st
      in case find_vtable_method h vt interface_method of
           Some vtable_method \<Rightarrow>
             if \<not> IsAbstract (method_at h vtable_method) \<and> \<not> IsPublic (method_at h vtable_method)
             then Inl (Exception_pending ''Ljava/lang/IllegalAccessError;'')
             else (let imt_index = unat (dex_method_index (method_at h interface_method))
                                     mod kImtSize rt
                   in if ls_imtable st ! imt_index = None
                      then Inr (st\<lparr>ls_imtable := (ls_imtable st)[imt_index := Some vtable_method],
                                   ls_imtable_changed := True\<rparr>, vtable_method)
                      else Inr (st\<lparr>ls_imtable :=
                                     (ls_imtable st)[imt_index := Some (imt_conflict_method rt)]\<rparr>,
                                vtable_method))
         | None \<Rightarrow>
             (case find (\<lambda>mir_method. HasSameNameAndSignature (method_at h interface_method)
                                        (method_at h mir_method)) (ls_miranda_list st) of
                Some miranda_method \<Rightarrow> Inr (st, miranda_method)
              | None \<Rightarrow>
                  (case Clone h interface_method of
                     Inl e \<Rightarrow> Inl e
                   | Inr (miranda_method, h') \<Rightarrow>
                       Inr (st\<lparr>ls_heap := h',
                               ls_miranda_list := ls_miranda_list st @ [miranda_method]\<rparr>,
                            miranda_method))))"

fun link_interface_method_array ::
  "Imt_runtime \<Rightarrow> nat list \<Rightarrow> nat list \<Rightarrow> link_state \<Rightarrow> failure + (link_state \<times> nat list)" where
  "link_interface_method_array rt vt [] st = Inr (st, [])"
| "link_interface_method_array rt vt (interface_method # methods) st =
     (case link_interface_method rt vt interface_method st of
        Inl e \<Rightarrow> Inl e
      | Inr (st1, entry) \<Rightarrow>
          (case link_interface_method_array rt vt methods st1 of
             Inl e \<Rightarrow> Inl e
           | Inr (st2, entries) \<Rightarrow> Inr (st2, entry # entries)))"

text \<open>The loop over the interfaces of the table: an interface with methods gets a method
  array.  \<open>klass_vtable\<close> is \<^verbatim>\<open>klass->GetVTableDuringLinking()\<close>, whose length is read for the
  first method of the interface: \<^verbatim>\<open>NULL\<close> is dereferenced there.\<close>

fun link_interfaces ::
  "Imt_runtime \<Rightarrow> (nat \<Rightarrow> Class) \<Rightarrow> nat list option \<Rightarrow> nat list \<Rightarrow> link_state
     \<Rightarrow> failure + (link_state \<times> (nat \<times> nat list option) list)" where
  "link_interfaces rt heap klass_vtable [] st = Inr (st, [])"
| "link_interfaces rt heap klass_vtable (interface # rest) st =
     (if length (virtual_methods (heap interface)) > 0
      then (case AllocArray (ls_heap st) of
              Inl e \<Rightarrow> Inl e
            | Inr h1 \<Rightarrow>
                (case klass_vtable of
                   None \<Rightarrow> Inl Check_failed
                 | Some vt \<Rightarrow>
                     (case link_interface_method_array rt vt (virtual_methods (heap interface))
                             (st\<lparr>ls_heap := h1\<rparr>) of
                        Inl e \<Rightarrow> Inl e
                      | Inr (st1, method_array) \<Rightarrow>
                          (case link_interfaces rt heap klass_vtable rest st1 of
                             Inl e \<Rightarrow> Inl e
                           | Inr (st2, entries) \<Rightarrow>
                               Inr (st2, (interface, Some method_array) # entries)))))
      else (case link_interfaces rt heap klass_vtable rest st of
              Inl e \<Rightarrow> Inl e
            | Inr (st2, entries) \<Rightarrow> Inr (st2, (interface, None) # entries)))"

text \<open>"Fill in empty entries in interface method table with conflict."\<close>

definition fill_imtable :: "Imt_runtime \<Rightarrow> nat option list \<Rightarrow> nat list" where
  "fill_imtable rt table =
     map (\<lambda>entry. case entry of None \<Rightarrow> imt_conflict_method rt | Some m \<Rightarrow> m) table"

text \<open>The loop over \<^verbatim>\<open>miranda_list\<close>: the method gets the flag \<^verbatim>\<open>kAccMiranda\<close> and the index
  \<^verbatim>\<open>0xFFFF & (old_vtable_count + i)\<close>; the argument \<open>slot\<close> is \<^verbatim>\<open>old_vtable_count + i\<close>.\<close>

fun set_miranda_indices :: "nat list \<Rightarrow> nat \<Rightarrow> Heap \<Rightarrow> Heap" where
  "set_miranda_indices [] slot h = h"
| "set_miranda_indices (method # methods) slot h =
     set_miranda_indices methods (slot + 1)
       (SetMethodIndex
          (h\<lparr>method_at := (method_at h)
               (method := (method_at h method)
                  \<lparr>method_access_flags := method_access_flags (method_at h method) OR kAccMiranda\<rparr>)\<rparr>)
          method (slot mod 65536))"

text \<open>The second part of \<^verbatim>\<open>LinkInterfaceMethods\<close>, from the allocation of the interface
  method table on.  The last loop reads the length of the vtable, so that a class without
  vtable does not get further; its \<^verbatim>\<open>CHECK(vtable->Get(i) != NULL)\<close> holds of a list of
  addresses.\<close>

definition link_interface_tables ::
  "Imt_runtime \<Rightarrow> (nat \<Rightarrow> Class) \<Rightarrow> Class \<Rightarrow> Heap \<Rightarrow> failure + (Class \<times> Heap)" where
  "link_interface_tables rt heap klass h =
     (case AllocArray h of
        Inl e \<Rightarrow> Inl e
      | Inr h1 \<Rightarrow>
          (case link_interfaces rt heap (vtable klass)
                  (case iftable klass of None \<Rightarrow> [] | Some t \<Rightarrow> map fst t)
                  \<lparr>ls_heap = h1, ls_imtable = replicate (kImtSize rt) None,
                   ls_imtable_changed = False, ls_miranda_list = []\<rparr> of
             Inl e \<Rightarrow> Inl e
           | Inr (st, entries) \<Rightarrow>
               (case vtable klass of
                  None \<Rightarrow> Inl Check_failed
                | Some vt \<Rightarrow>
                    (let klass1 = klass\<lparr>iftable := Some entries\<rparr>;
                         klass2 = (if ls_imtable_changed st
                                   then klass1\<lparr>imtable := fill_imtable rt (ls_imtable st)\<rparr>
                                   else klass1);
                         miranda_list = ls_miranda_list st
                     in if miranda_list \<noteq> []
                        then (case AllocArray (ls_heap st) of
                                Inl e \<Rightarrow> Inl e
                              | Inr h2 \<Rightarrow>
                                  (case AllocArray h2 of
                                     Inl e \<Rightarrow> Inl e
                                   | Inr h3 \<Rightarrow>
                                       Inr (klass2\<lparr>virtual_methods :=
                                                     virtual_methods klass2 @ miranda_list,
                                                   vtable := Some (vt @ miranda_list)\<rparr>,
                                            set_miranda_indices miranda_list (length vt) h3)))
                        else Inr (klass2, ls_heap st)))))"

text \<open>\<^verbatim>\<open>ClassLinker::LinkInterfaceMethods\<close>.\<close>

definition LinkInterfaceMethods ::
  "Imt_runtime \<Rightarrow> (nat \<Rightarrow> Class) \<Rightarrow> Class \<Rightarrow> nat list option \<Rightarrow> Heap \<Rightarrow> failure + (Class \<times> Heap)" where
  "LinkInterfaceMethods rt heap klass interfaces h =
     (case link_iftable rt heap klass interfaces h of
        Inl e \<Rightarrow> Inl e
      | Inr (True, klass1, h1) \<Rightarrow> Inr (klass1, h1)
      | Inr (False, klass1, h1) \<Rightarrow> link_interface_tables rt heap klass1 h1)"

subsection \<open>Field layout as the specification words it\<close>

text \<open>The size of a field, offsets assigned one after the other, and the three kinds of
  fields of the specification: object references, 64-bit primitives, 32-bit primitives (every
  other primitive).\<close>

definition field_size :: "ArtField \<Rightarrow> 32 word" where
  "field_size f = (if is_64bit (GetTypeAsPrimitiveType f) then 8 else 4)"

fun assign_offsets :: "ArtField list \<Rightarrow> 32 word \<Rightarrow> ArtField list" where
  "assign_offsets [] off = []"
| "assign_offsets (f # fs) off = f\<lparr>field_offset := off\<rparr> # assign_offsets fs (off + field_size f)"

definition total_size :: "ArtField list \<Rightarrow> 32 word" where
  "total_size fs = sum_list (map field_size fs)"

definition is_reference_field :: "ArtField \<Rightarrow> bool" where
  "is_reference_field f = (GetTypeAsPrimitiveType f = kPrimNot)"

definition is_wide_field :: "ArtField \<Rightarrow> bool" where
  "is_wide_field f = is_64bit (GetTypeAsPrimitiveType f)"

definition is_narrow_field :: "ArtField \<Rightarrow> bool" where
  "is_narrow_field f = (GetTypeAsPrimitiveType f \<noteq> kPrimNot \<and> \<not> is_64bit (GetTypeAsPrimitiveType f))"

text \<open>Consecutive slots of \<open>w\<close> bytes from an offset.\<close>

fun slots :: "32 word \<Rightarrow> ArtField list \<Rightarrow> 32 word \<Rightarrow> ArtField list" where
  "slots w [] off = []"
| "slots w (f # fs) off = f\<lparr>field_offset := off\<rparr> # slots w fs (off + w)"

text \<open>The layout of three buckets in the words of the specification: the reference fields
  in consecutive 4-byte slots from the base offset; then, if primitive fields remain and the
  offset is not 8-byte aligned, one 32-bit field (the first one of its bucket) when there is
  one and a 4-byte gap otherwise; then the 64-bit fields, then the remaining 32-bit fields.
  The result is the field array in layout order and the offset after the last field.\<close>

definition bucket_layout ::
  "ArtField list \<Rightarrow> ArtField list \<Rightarrow> ArtField list \<Rightarrow> 32 word \<Rightarrow> ArtField list \<times> 32 word" where
  "bucket_layout refs wide narrow base =
     (let off1 = base + 4 * of_nat (length refs);
          (pad, narrow_rest, off2) =
            (if (wide \<noteq> [] \<or> narrow \<noteq> []) \<and> \<not> IsAligned8 off1
             then (case narrow of
                     [] \<Rightarrow> ([], [], off1 + 4)
                   | p # narrow' \<Rightarrow> ([p\<lparr>field_offset := off1\<rparr>], narrow', off1 + 4))
             else ([], narrow, off1));
          off3 = off2 + 8 * of_nat (length wide);
          off4 = off3 + 4 * of_nat (length narrow_rest)
      in (slots 4 refs base @ pad @ slots 8 wide off2 @ slots 4 narrow_rest off3, off4))"

text \<open>The sort key that the comparator induces: the kind of the field, then its name.  The
  comparator distinguishes two fields when their keys differ; for a list of fields with
  distinct keys the contract of \<^verbatim>\<open>std::sort\<close> leaves one result, the list sorted by key.\<close>

definition LinkFields_key :: "ArtField \<Rightarrow> nat \<times> string" where
  "LinkFields_key f = (field_order (GetTypeAsPrimitiveType f), field_name f)"

definition key_sort :: "ArtField list \<Rightarrow> ArtField list" where
  "key_sort fs = sort_key LinkFields_key fs"

text \<open>The fields of a kind, sorted by name, and the layout of these three buckets.\<close>

definition bucket :: "(ArtField \<Rightarrow> bool) \<Rightarrow> ArtField list \<Rightarrow> ArtField list" where
  "bucket P fs = sort_key field_name (filter P fs)"

definition spec_field_layout :: "ArtField list \<Rightarrow> 32 word \<Rightarrow> ArtField list \<times> 32 word" where
  "spec_field_layout fs base =
     bucket_layout (bucket is_reference_field fs) (bucket is_wide_field fs)
       (bucket is_narrow_field fs) base"

text \<open>The array that \<^verbatim>\<open>LinkFields\<close> lays out.\<close>

definition fields_of :: "Class \<Rightarrow> bool \<Rightarrow> ArtField list" where
  "fields_of klass is_static = (if is_static then sfields klass else ifields klass)"


text \<open>A type descriptor that \<^verbatim>\<open>SizeOfClass\<close> counts as a reference: it starts with \<^verbatim>\<open>L\<close>
  or \<^verbatim>\<open>[\<close>.\<close>

definition reference_descriptor :: "string \<Rightarrow> bool" where
  "reference_descriptor d = (case d of [] \<Rightarrow> False | c # _ \<Rightarrow> c = CHR ''L'' \<or> c = CHR ''['')"

subsection \<open>Class table: notions of the statements\<close>



text \<open>The classes of the boot image: the resolved types of its dex caches.\<close>

definition image_classes :: "DexCache list \<Rightarrow> nat set" where
  "image_classes dex_caches = {k. \<exists>dc\<in>set dex_caches. \<exists>d. (d, Some k) \<in> set dc}"

text \<open>The state that \<^verbatim>\<open>InsertClass\<close> leaves when it inserts.\<close>

definition with_class :: "ClassLinker \<Rightarrow> size_t \<Rightarrow> nat \<Rightarrow> ClassLinker" where
  "with_class cl hash klass =
     cl\<lparr>class_table := class_table cl @ [(hash, klass)],
        new_class_roots :=
          (if log_new_class_table_roots cl then new_class_roots cl @ [(hash, klass)]
           else new_class_roots cl)\<rparr>"

subsection \<open>Class initialisation: notions of the statements\<close>

text \<open>The class of the exception that an erroneous class is rejected with: the recorded
  verify-error class when there is one, \<^verbatim>\<open>NoClassDefFoundError\<close> otherwise.\<close>

definition earlier_failure_class :: "(nat \<Rightarrow> Class) \<Rightarrow> nat \<Rightarrow> string" where
  "earlier_failure_class heap klass =
     (case verify_error_class (heap klass) of
        Some ve \<Rightarrow> descriptor (heap ve)
      | None \<Rightarrow> ''Ljava/lang/NoClassDefFoundError;'')"

text \<open>The exception that is pending after a static initializer let \<open>e\<close> escape: \<open>e\<close> itself
  when it is an \<^verbatim>\<open>Error\<close>, else an \<^verbatim>\<open>ExceptionInInitializerError\<close> with \<open>e\<close> as its cause.\<close>

definition wrapped_in_initializer :: "Runtime \<Rightarrow> Throwable \<Rightarrow> Throwable" where
  "wrapped_in_initializer env e =
     (if IsInstanceOf_Error env e then e
      else Throwable ''Ljava/lang/ExceptionInInitializerError;'' [] (Some e))"

subsection \<open>Method tables: notions of the statements\<close>

text \<open>A method of the table that a method of the class overrides: it has the name and the
  signature of the method, and the class may access it.\<close>

definition overridable :: "(nat \<Rightarrow> 32 word \<Rightarrow> bool) \<Rightarrow> Heap \<Rightarrow> nat \<Rightarrow> nat \<Rightarrow> bool" where
  "overridable CanAccessMember h local_method super_method =
     (HasSameNameAndSignature (method_at h local_method) (method_at h super_method) \<and>
      CanAccessMember (declaring_class (method_at h super_method))
        (method_access_flags (method_at h super_method)))"

text \<open>The lowest slot of the table with a method that the method overrides.\<close>

definition first_accessible_match ::
  "(nat \<Rightarrow> 32 word \<Rightarrow> bool) \<Rightarrow> Heap \<Rightarrow> nat \<Rightarrow> nat list \<Rightarrow> nat option" where
  "first_accessible_match CanAccessMember h local_method vt =
     find (\<lambda>j. overridable CanAccessMember h local_method (vt ! j)) [0..<length vt]"

text \<open>The slot as the specification words it, "scan the inherited table from the end": the
  highest slot with a method that the method overrides.\<close>

definition last_accessible_match ::
  "(nat \<Rightarrow> 32 word \<Rightarrow> bool) \<Rightarrow> Heap \<Rightarrow> nat \<Rightarrow> nat list \<Rightarrow> nat option" where
  "last_accessible_match CanAccessMember h local_method vt =
     find (\<lambda>j. overridable CanAccessMember h local_method (vt ! j)) (rev [0..<length vt])"

text \<open>The table and the store when the loop of \<^verbatim>\<open>LinkVirtualMethods\<close> over the virtual
  methods of the class comes to its method number \<open>i\<close> (all of them done when \<open>i\<close> is their
  number), or the failure before; \<open>h\<close> is the store in which the copy of the vtable of the
  superclass was allocated.\<close>

definition vtable_before ::
  "(nat \<Rightarrow> 32 word \<Rightarrow> bool) \<Rightarrow> Class \<Rightarrow> nat list \<Rightarrow> Heap \<Rightarrow> nat \<Rightarrow> failure + (nat list \<times> Heap)" where
  "vtable_before CanAccessMember klass super_vtable h i =
     link_virtual_methods CanAccessMember (take i (virtual_methods klass)) (super_vtable, h)"

text \<open>The vtable of the class that linking returns.\<close>

definition linked_vtable :: "failure + (Class \<times> Heap) \<Rightarrow> nat list option" where
  "linked_vtable r = (case r of Inl e \<Rightarrow> None | Inr (klass, h) \<Rightarrow> vtable klass)"

text \<open>The invariant of a vtable: the method in slot \<open>i\<close> has the index \<open>i\<close>, in the 16 bits
  that the index has.  And: the methods of a list are in the store, below the address of
  the next new method.\<close>

definition vtable_indexed :: "Heap \<Rightarrow> nat list \<Rightarrow> bool" where
  "vtable_indexed h vt =
     list_all (\<lambda>i. method_index (method_at h (vt ! i)) = i mod 65536) [0..<length vt]"

definition methods_allocated :: "Heap \<Rightarrow> nat list \<Rightarrow> bool" where
  "methods_allocated h methods = list_all (\<lambda>m. m < next_address h) methods"

text \<open>The vtable that a class inherits: that of its superclass.\<close>

definition inherited_vtable :: "(nat \<Rightarrow> Class) \<Rightarrow> Class \<Rightarrow> nat list" where
  "inherited_vtable heap klass =
     (case super_class klass of
        None \<Rightarrow> []
      | Some super \<Rightarrow> (case vtable (heap super) of None \<Rightarrow> [] | Some super_vtable \<Rightarrow> super_vtable))"

text \<open>A store and a later one: the later one has the methods of the earlier one unchanged,
  and maybe new ones.  And the invariant of the loops of \<^verbatim>\<open>LinkInterfaceMethods\<close> over the
  interface methods, for the store \<open>h\<close> that they start from: the miranda methods are new
  and distinct, the interface method table has its size, and \<^verbatim>\<open>imtable_changed\<close> says
  whether it has an entry.\<close>

definition store_extends :: "Heap \<Rightarrow> Heap \<Rightarrow> bool" where
  "store_extends h h' =
     (next_address h \<le> next_address h' \<and>
      (\<forall>a<next_address h. method_at h' a = method_at h a))"

definition mirandas_fresh :: "Heap \<Rightarrow> link_state \<Rightarrow> bool" where
  "mirandas_fresh h st =
     (store_extends h (ls_heap st) \<and> distinct (ls_miranda_list st) \<and>
      (\<forall>m\<in>set (ls_miranda_list st). next_address h \<le> m \<and> m < next_address (ls_heap st)))"

definition link_state_ok :: "Imt_runtime \<Rightarrow> Heap \<Rightarrow> link_state \<Rightarrow> bool" where
  "link_state_ok rt h st =
     (store_extends h (ls_heap st) \<and> distinct (ls_miranda_list st) \<and>
      (\<forall>m\<in>set (ls_miranda_list st). next_address h \<le> m \<and> m < next_address (ls_heap st)) \<and>
      length (ls_imtable st) = kImtSize rt \<and>
      (ls_imtable_changed st \<longleftrightarrow> (\<exists>entry\<in>set (ls_imtable st). entry \<noteq> None)))"

text \<open>The methods of the interfaces of an interface table, in the order of the table.\<close>

definition interface_methods_of :: "(nat \<Rightarrow> Class) \<Rightarrow> (nat \<times> nat list option) list \<Rightarrow> nat list" where
  "interface_methods_of heap table = concat (map (\<lambda>entry. virtual_methods (heap (fst entry))) table)"

text \<open>The writers of the interface method table: the interface methods that have an
  implementation in the vtable, in their order, each as the pair of its slot (the index of
  the interface method in its dex file, modulo the size of the table) and of the
  implementation.\<close>

definition imt_writers :: "Imt_runtime \<Rightarrow> Heap \<Rightarrow> nat list \<Rightarrow> nat list \<Rightarrow> (nat \<times> nat) list" where
  "imt_writers rt h vt interface_methods =
     List.map_filter
       (\<lambda>interface_method.
          map_option
            (\<lambda>vtable_method.
               (unat (dex_method_index (method_at h interface_method)) mod kImtSize rt,
                vtable_method))
            (find_vtable_method h vt interface_method))
       interface_methods"

text \<open>The policy of the specification for one writer: "first writer wins, any later
  collision on that slot installs a shared conflict sentinel method instead".  And what it
  leaves in a slot after all writers ("keep first, mark rest as ambiguous"): the
  implementation of the only writer of the slot; the conflict method when the slot has
  several writers, or none.\<close>

definition imt_install :: "Imt_runtime \<Rightarrow> nat option list \<Rightarrow> nat \<times> nat \<Rightarrow> nat option list" where
  "imt_install rt table w =
     table[fst w := Some (if table ! fst w = None then snd w else imt_conflict_method rt)]"

definition imt_slot :: "Imt_runtime \<Rightarrow> (nat \<times> nat) list \<Rightarrow> nat \<Rightarrow> nat" where
  "imt_slot rt writers s =
     (case filter (\<lambda>w. fst w = s) writers of
        [w] \<Rightarrow> snd w
      | _ \<Rightarrow> imt_conflict_method rt)"

subsection \<open>Example classes\<close>

text \<open>A class \<^verbatim>\<open>LBase;\<close> that is resolved and whose objects take 12 bytes, and the class of
  scenario 4 of the specification: fields \<^verbatim>\<open>refField\<close>, \<^verbatim>\<open>longField\<close>, \<^verbatim>\<open>intField\<close>,
  \<^verbatim>\<open>refField2\<close> declared in that order, as instance fields and as static fields.\<close>

definition example_Base :: Class where
  "example_Base =
     \<lparr>descriptor = ''LBase;'', class_loader = None, status = kStatusResolved,
      access_flags = 1, super_class = None, direct_interfaces = [], clinit_thread_id = 0,
      verify_error_class = None, class_initializer = None, static_values_off = 0,
      is_variable_size = False, class_size = 120, object_size = 12,
      sfields = [], ifields = [],
      num_reference_static_fields = 0, num_reference_instance_fields = 0,
      virtual_methods = [], vtable = Some [], iftable = None, imtable = []\<rparr>"

definition example_fields :: "ArtField list" where
  "example_fields =
     [\<lparr>field_name = ''refField'', field_type_descriptor = ''Ljava/lang/Object;'', field_offset = 0\<rparr>,
      \<lparr>field_name = ''longField'', field_type_descriptor = ''J'', field_offset = 0\<rparr>,
      \<lparr>field_name = ''intField'', field_type_descriptor = ''I'', field_offset = 0\<rparr>,
      \<lparr>field_name = ''refField2'', field_type_descriptor = ''[I'', field_offset = 0\<rparr>]"

definition example_Sub :: Class where
  "example_Sub =
     \<lparr>descriptor = ''LSub;'', class_loader = None, status = kStatusLoaded,
      access_flags = 1, super_class = Some 1, direct_interfaces = [], clinit_thread_id = 0,
      verify_error_class = None, class_initializer = None, static_values_off = 0,
      is_variable_size = False, class_size = 140, object_size = 0,
      sfields = example_fields, ifields = example_fields,
      num_reference_static_fields = 0, num_reference_instance_fields = 0,
      virtual_methods = [], vtable = None, iftable = None, imtable = []\<rparr>"

definition example_heap :: "nat \<Rightarrow> Class" where
  "example_heap = (\<lambda>_. example_Base)"

text \<open>Two sorts that the contract of \<^verbatim>\<open>std::sort\<close> allows.  The insertion sort with the
  comparator keeps the fields that the comparator does not distinguish in their order; run
  on the reversed list, it reverses their order.\<close>

fun sort_insert :: "ArtField \<Rightarrow> ArtField list \<Rightarrow> ArtField list" where
  "sort_insert f [] = [f]"
| "sort_insert f (g # gs) =
     (if LinkFieldsComparator g f then g # sort_insert f gs else f # g # gs)"

definition example_std_sort :: "ArtField list \<Rightarrow> ArtField list" where
  "example_std_sort fs = foldr sort_insert fs []"

definition example_reversing_sort :: "ArtField list \<Rightarrow> ArtField list" where
  "example_reversing_sort fs = foldr sort_insert (rev fs) []"




text \<open>A class \<^verbatim>\<open>LFoo;\<close> of the bootstrap loader, a store in which every address holds such a
  class object, and linker states with an empty table and with the object at address 1 in the
  table.\<close>

definition example_Foo :: Class where
  "example_Foo = example_Base\<lparr>descriptor := ''LFoo;''\<rparr>"

definition example_Foo_heap :: "nat \<Rightarrow> Class" where
  "example_Foo_heap = (\<lambda>_. example_Foo)"

definition example_empty_linker :: ClassLinker where
  "example_empty_linker =
     \<lparr>class_table = [], new_class_roots = [], log_new_class_table_roots = False,
      dex_cache_image_class_lookup_required = False, failed_dex_cache_class_lookups = 0,
      image_dex_caches = None\<rparr>"




definition example_platform :: Platform where
  "example_platform = \<lparr>size_t_bits = 32, char_is_signed = False\<rparr>"


definition example_thread :: Thread where
  "example_thread = \<lparr>tid = 7, exception = None\<rparr>"

text \<open>A linker that started from a boot image whose only dex cache has resolved \<^verbatim>\<open>LFoo;\<close>
  to the class at address 1, with an empty class table.\<close>

definition example_image_linker :: ClassLinker where
  "example_image_linker =
     example_empty_linker\<lparr>dex_cache_image_class_lookup_required := True,
                           image_dex_caches := Some [[(''LFoo;'', Some 1)]]\<rparr>"


text \<open>A runtime in which verification and validation succeed at once, no class has
  encoded static values, and every class initializer throws a \<^verbatim>\<open>RuntimeException\<close>; a
  class \<^verbatim>\<open>LX;\<close> that is verified and has a class initializer (scenario 5 of the
  specification); and the same class after a failed initialisation.\<close>

definition example_runtime :: Runtime where
  "example_runtime =
     \<lparr>IsCompiler = False,
      VerifyClass = (\<lambda>klass self heap. (self, heap)),
      WaitForInitializeClass = (\<lambda>klass self heap. None),
      ValidateSuperClassDescriptors = (\<lambda>klass self heap. (True, self)),
      HasEncodedStaticValues = (\<lambda>klass. False),
      ReadStaticValues = (\<lambda>klass self heap. (self, heap)),
      Invoke = (\<lambda>method self heap.
        (self\<lparr>exception := Some (Throwable ''Ljava/lang/RuntimeException;'' ''boom'' None)\<rparr>, heap)),
      IsInstanceOf_Error = (\<lambda>e. throwable_class e = ''Ljava/lang/Error;'')\<rparr>"

definition example_X :: Class where
  "example_X = example_Base\<lparr>descriptor := ''LX;'', status := kStatusVerified,
                             class_initializer := Some 9\<rparr>"

definition example_X_heap :: "nat \<Rightarrow> Class" where
  "example_X_heap = (\<lambda>_. example_X)"

definition example_erroneous_heap :: "nat \<Rightarrow> Class" where
  "example_erroneous_heap = (\<lambda>_. example_X\<lparr>status := kStatusError\<rparr>)"

text \<open>Methods: \<^verbatim>\<open>A.f\<close> (package-private), \<^verbatim>\<open>B.f\<close>, the methods \<^verbatim>\<open>f\<close>, \<^verbatim>\<open>g\<close> and \<^verbatim>\<open>k\<close> of a
  class \<^verbatim>\<open>C\<close>, and the methods \<^verbatim>\<open>f\<close>, \<^verbatim>\<open>g\<close>, \<^verbatim>\<open>k\<close> and \<^verbatim>\<open>h\<close> of an interface \<^verbatim>\<open>I\<close>, at the
  addresses 0 to 8.  The class \<^verbatim>\<open>B\<close> (at address 11) extends \<^verbatim>\<open>A\<close> and has the vtable
  \<^verbatim>\<open>[A.f, B.f]\<close>; \<^verbatim>\<open>C\<close> extends \<^verbatim>\<open>B\<close> and implements \<^verbatim>\<open>I\<close> (at address 13).\<close>

definition example_method :: "string \<Rightarrow> nat \<Rightarrow> 32 word \<Rightarrow> nat \<Rightarrow> 32 word \<Rightarrow> ArtMethod" where
  "example_method name c flags i dex_index =
     \<lparr>method_name = name, method_signature = ''()V'', declaring_class = c,
      method_access_flags = flags, method_index = i, dex_method_index = dex_index\<rparr>"

definition example_methods :: "ArtMethod list" where
  "example_methods =
     [example_method ''f'' 10 0 0 1, example_method ''f'' 11 1 1 2,
      example_method ''f'' 12 1 0 3, example_method ''g'' 12 1 0 4,
      example_method ''k'' 12 1 0 5,
      example_method ''f'' 13 0x401 0 8, example_method ''g'' 13 0x401 1 13,
      example_method ''k'' 13 0x401 2 17, example_method ''h'' 13 0x401 3 6]"

definition example_store :: Heap where
  "example_store =
     \<lparr>method_at = (\<lambda>a. if a < 9 then example_methods ! a else example_method [] 0 0 0 0),
      next_address = 9, free_allocations = 20\<rparr>"

definition example_B :: Class where
  "example_B = example_Base\<lparr>descriptor := ''LB;'', vtable := Some [0, 1]\<rparr>"

definition example_I :: Class where
  "example_I = example_Base\<lparr>descriptor := ''LI;'', access_flags := 0x601,
                             virtual_methods := [5, 6, 7, 8], vtable := None\<rparr>"

definition example_C :: Class where
  "example_C = example_Base\<lparr>descriptor := ''LC;'', super_class := Some 11,
                             direct_interfaces := [13], virtual_methods := [2, 3, 4],
                             vtable := None\<rparr>"

text \<open>The class \<^verbatim>\<open>C\<close> with the vtable that \<^verbatim>\<open>LinkVirtualMethods\<close> gives it when it may access
  public methods only.\<close>

definition example_C_linked :: Class where
  "example_C_linked = example_C\<lparr>vtable := Some [0, 2, 3, 4]\<rparr>"

definition example_method_heap :: "nat \<Rightarrow> Class" where
  "example_method_heap = (\<lambda>a. if a = 11 then example_B else if a = 13 then example_I
                                else example_Base)"

text \<open>The same store with \<^verbatim>\<open>B.f\<close> final; and with a second method \<^verbatim>\<open>g\<close> of the class \<^verbatim>\<open>C\<close>
  in the place of its method \<^verbatim>\<open>k\<close>.\<close>

definition example_final_store :: Heap where
  "example_final_store =
     example_store\<lparr>method_at := (method_at example_store)(1 := example_method ''f'' 11 0x11 1 2)\<rparr>"

definition example_duplicate_store :: Heap where
  "example_duplicate_store =
     example_store\<lparr>method_at := (method_at example_store)(4 := example_method ''g'' 12 1 0 5)\<rparr>"

text \<open>The access test of a class of another package than \<^verbatim>\<open>A\<close>: public members only.  A
  class of the package of \<^verbatim>\<open>A\<close> may access all of these methods.\<close>

definition example_CanAccessMember :: "nat \<Rightarrow> 32 word \<Rightarrow> bool" where
  "example_CanAccessMember c flags = (flags AND kAccPublic \<noteq> 0)"

definition example_package_access :: "nat \<Rightarrow> 32 word \<Rightarrow> bool" where
  "example_package_access c flags = True"

definition example_imt_runtime :: Imt_runtime where
  "example_imt_runtime = \<lparr>kImtSize = 4, default_imt = [99, 99, 99, 99], imt_conflict_method = 99\<rparr>"

section \<open>Proofs\<close>

subsection \<open>The sort and the three buckets\<close>

lemma LinkFieldsComparator_key:
  "LinkFieldsComparator a b \<longleftrightarrow> LinkFields_key a < LinkFields_key b"
  by (auto simp: LinkFieldsComparator_def LinkFields_key_def Let_def)

lemma sort_insert_insort: "sort_insert f gs = insort_key LinkFields_key f gs"
  by (induction gs) (auto simp: LinkFieldsComparator_key)

lemma foldr_sort_insert: "foldr sort_insert fs [] = key_sort fs"
  unfolding key_sort_def sort_key_def
  by (induction fs) (auto simp: sort_insert_insort)

lemma field_order_cases:
  "field_order (GetTypeAsPrimitiveType f) = 0 \<longleftrightarrow> is_reference_field f"
  "field_order (GetTypeAsPrimitiveType f) = 1 \<longleftrightarrow> is_wide_field f"
  "field_order (GetTypeAsPrimitiveType f) = 2 \<longleftrightarrow> is_narrow_field f"
  by (auto simp: field_order_def is_reference_field_def is_wide_field_def is_narrow_field_def
      is_64bit_def Let_def)

lemma field_order_le2: "field_order t \<le> 2"
  by (simp add: field_order_def Let_def)

lemma sorted_filter_split:
  fixes g :: "'a \<Rightarrow> nat"
  shows "sorted (map g xs) \<Longrightarrow> filter (\<lambda>x. g x < k) xs @ filter (\<lambda>x. \<not> g x < k) xs = xs"
proof (induction xs)
  case Nil
  then show ?case by simp
next
  case (Cons x xs)
  show ?case
  proof (cases "g x < k")
    case True
    with Cons show ?thesis by simp
  next
    case False
    with Cons.prems have "\<forall>y\<in>set xs. \<not> g y < k" by auto
    then have "filter (\<lambda>x. g x < k) xs = []" "filter (\<lambda>x. \<not> g x < k) xs = xs"
      by (auto simp: filter_empty_conv filter_id_conv)
    with False show ?thesis by simp
  qed
qed

lemma sorted_key_sorted_order:
  "sorted (map LinkFields_key xs) \<Longrightarrow> sorted (map (\<lambda>f. field_order (GetTypeAsPrimitiveType f)) xs)"
  by (induction xs) (auto simp: LinkFields_key_def less_eq_prod_def)

lemma three_buckets:
  assumes "sorted (map LinkFields_key xs)"
  shows "xs = filter is_reference_field xs @ filter is_wide_field xs @ filter is_narrow_field xs"
proof -
  let ?g = "\<lambda>f. field_order (GetTypeAsPrimitiveType f)"
  have s: "sorted (map ?g xs)" using assms by (rule sorted_key_sorted_order)
  have a: "filter (\<lambda>x. ?g x < 1) xs @ filter (\<lambda>x. \<not> ?g x < 1) xs = xs"
    using s by (rule sorted_filter_split)
  have s2: "sorted (map ?g (filter (\<lambda>x. \<not> ?g x < 1) xs))"
    using s by (simp add: sorted_filter)
  have b: "filter (\<lambda>x. ?g x < 2) (filter (\<lambda>x. \<not> ?g x < 1) xs)
         @ filter (\<lambda>x. \<not> ?g x < 2) (filter (\<lambda>x. \<not> ?g x < 1) xs) = filter (\<lambda>x. \<not> ?g x < 1) xs"
    using s2 by (rule sorted_filter_split)
  have r: "filter (\<lambda>x. ?g x < 1) xs = filter is_reference_field xs"
    by (rule filter_cong) (auto simp: field_order_cases [symmetric])
  have w: "filter (\<lambda>x. ?g x < 2) (filter (\<lambda>x. \<not> ?g x < 1) xs) = filter is_wide_field xs"
    unfolding filter_filter
    by (rule filter_cong) (auto simp: field_order_cases [symmetric])
  have n: "filter (\<lambda>x. \<not> ?g x < 2) (filter (\<lambda>x. \<not> ?g x < 1) xs) = filter is_narrow_field xs"
    unfolding filter_filter
  proof (rule filter_cong [OF refl])
    fix x show "(\<not> ?g x < 1 \<and> \<not> ?g x < 2) = is_narrow_field x"
      using field_order_le2 [of "GetTypeAsPrimitiveType x"]
      by (auto simp: field_order_cases [symmetric])
  qed
  have "xs = filter is_reference_field xs @ filter (\<lambda>x. \<not> ?g x < 1) xs"
    by (metis a r)
  moreover have "filter (\<lambda>x. \<not> ?g x < 1) xs = filter is_wide_field xs @ filter is_narrow_field xs"
    by (metis b w n)
  ultimately show ?thesis by simp
qed

lemma insort_key_same_order:
  assumes "\<forall>y\<in>set (x # ys). field_order (GetTypeAsPrimitiveType y) = k"
  shows "insort_key LinkFields_key x ys = insort_key field_name x ys"
  using assms by (induction ys) (auto simp: LinkFields_key_def less_eq_prod_def)

lemma sort_key_same_order:
  assumes "\<forall>y\<in>set xs. field_order (GetTypeAsPrimitiveType y) = k"
  shows "sort_key LinkFields_key xs = sort_key field_name xs"
  using assms
proof (induction xs)
  case Nil
  then show ?case by simp
next
  case (Cons x xs)
  then have "sort_key LinkFields_key xs = sort_key field_name xs" by simp
  moreover have "\<forall>y\<in>set (x # sort_key field_name xs). field_order (GetTypeAsPrimitiveType y) = k"
    using Cons.prems by simp
  ultimately show ?case
    by (simp add: insort_key_same_order [where k = k])
qed

lemma filter_key_sort:
  assumes "\<And>f. P f \<Longrightarrow> field_order (GetTypeAsPrimitiveType f) = k"
  shows "filter P (key_sort fs) = bucket P fs"
proof -
  have "filter P (sort_key LinkFields_key fs) = sort_key LinkFields_key (filter P fs)"
    by (rule filter_sort)
  also have "\<dots> = sort_key field_name (filter P fs)"
    by (rule sort_key_same_order [where k = k]) (simp add: assms)
  finally show ?thesis by (simp add: key_sort_def bucket_def)
qed

lemma key_sort_buckets:
  "key_sort fs = bucket is_reference_field fs @ bucket is_wide_field fs @ bucket is_narrow_field fs"
proof -
  have "sorted (map LinkFields_key (key_sort fs))" by (simp add: key_sort_def)
  from three_buckets [OF this]
  have "key_sort fs = filter is_reference_field (key_sort fs) @ filter is_wide_field (key_sort fs)
      @ filter is_narrow_field (key_sort fs)" .
  moreover have "filter is_reference_field (key_sort fs) = bucket is_reference_field fs"
    by (rule filter_key_sort [where k = 0]) (simp add: field_order_cases)
  moreover have "filter is_wide_field (key_sort fs) = bucket is_wide_field fs"
    by (rule filter_key_sort [where k = 1]) (simp only: field_order_cases)
  moreover have "filter is_narrow_field (key_sort fs) = bucket is_narrow_field fs"
    by (rule filter_key_sort [where k = 2]) (simp only: field_order_cases)
  ultimately show ?thesis by simp
qed

lemma IsAligned8_RoundUp8: "IsAligned8 x \<longleftrightarrow> x = RoundUp8 x"
proof
  assume "x = RoundUp8 x"
  then have "x AND 7 = ((x + 7) AND NOT 7) AND 7" by (simp add: RoundUp8_def)
  then show "IsAligned8 x" by (simp add: IsAligned8_def and.assoc)
next
  assume "IsAligned8 x"
  then have z: "x AND 7 = 0" by (simp add: IsAligned8_def)
  have "x + 7 = (x AND 7) + (x OR 7)" by (simp add: word_plus_and_or)
  then have "x + 7 = x OR 7" using z by simp
  then have "(x + 7) AND NOT 7 = (x OR 7) AND NOT 7" by simp
  also have "\<dots> = x AND NOT 7" by (simp add: bit.conj_disj_distrib2)
  also have "\<dots> = x"
  proof -
    have "x = x AND (7 OR NOT 7)" by simp
    also have "\<dots> = (x AND 7) OR (x AND NOT 7)" by (simp only: bit.conj_disj_distrib)
    finally show ?thesis using z by simp
  qed
  finally show "x = RoundUp8 x" by (simp add: RoundUp8_def)
qed


lemma set_bucket: "set (bucket P fs) = {f \<in> set fs. P f}"
  by (simp add: bucket_def)

lemma total_size_Nil: "total_size [] = 0"
  by (simp add: total_size_def)

lemma total_size_Cons: "total_size (f # fs) = field_size f + total_size fs"
  by (simp add: total_size_def)

lemma total_size_append: "total_size (xs @ ys) = total_size xs + total_size ys"
  by (simp add: total_size_def)

lemma assign_offsets_append:
  "assign_offsets (xs @ ys) off = assign_offsets xs off @ assign_offsets ys (off + total_size xs)"
  by (induction xs arbitrary: off) (simp_all add: total_size_Nil total_size_Cons add.assoc)

lemma length_assign_offsets [simp]: "length (assign_offsets xs off) = length xs"
  by (induction xs arbitrary: off) simp_all

lemma total_size_narrow:
  "\<forall>f\<in>set xs. \<not> is_wide_field f \<Longrightarrow> total_size xs = 4 * of_nat (length xs)"
  by (induction xs) (simp_all add: total_size_Nil total_size_Cons field_size_def is_wide_field_def
      algebra_simps)

lemma total_size_wide:
  "\<forall>f\<in>set xs. is_wide_field f \<Longrightarrow> total_size xs = 8 * of_nat (length xs)"
  by (induction xs) (simp_all add: total_size_Nil total_size_Cons field_size_def is_wide_field_def
      algebra_simps)

lemma reference_not_wide: "is_reference_field f \<Longrightarrow> \<not> is_wide_field f"
  by (simp add: is_reference_field_def is_wide_field_def is_64bit_def)

lemma link_reference_fields_split:
  assumes "\<forall>f\<in>set R. is_reference_field f" and "\<forall>f\<in>set P. \<not> is_reference_field f"
  shows "link_reference_fields (R @ P) off = (assign_offsets R off, P, off + total_size R)"
  using assms(1)
proof (induction R arbitrary: off)
  case Nil
  show ?case using assms(2)
    by (cases P) (simp_all add: total_size_Nil is_reference_field_def)
next
  case (Cons f R)
  then have "is_reference_field f" by simp
  then have "field_size f = 4" "GetTypeAsPrimitiveType f = kPrimNot"
    by (simp_all add: field_size_def is_reference_field_def is_64bit_def)
  with Cons show ?case
    by (simp add: total_size_Cons add.assoc)
qed

lemma find_padding_field_split:
  assumes "\<forall>f\<in>set W. is_wide_field f" and "\<forall>f\<in>set N. is_narrow_field f"
  shows "find_padding_field (W @ N) =
           Inr (case N of [] \<Rightarrow> None | p # N' \<Rightarrow> Some (p, W @ N'))"
  using assms(1)
proof (induction W)
  case Nil
  show ?case using assms(2)
    by (cases N) (auto simp: is_narrow_field_def is_64bit_def Let_def)
next
  case (Cons f W)
  then have "is_wide_field f" by simp
  then have "GetTypeAsPrimitiveType f \<noteq> kPrimNot"
    "GetTypeAsPrimitiveType f = kPrimLong \<or> GetTypeAsPrimitiveType f = kPrimDouble"
    by (auto simp: is_wide_field_def is_64bit_def)
  with Cons show ?case
    by (cases N) (auto simp: Let_def)
qed

lemma link_remaining_fields_all:
  assumes "\<forall>f\<in>set P. \<not> is_reference_field f"
  shows "link_remaining_fields P off = Inr (assign_offsets P off, off + total_size P)"
  using assms
proof (induction P arbitrary: off)
  case Nil
  then show ?case by (simp add: total_size_Nil)
next
  case (Cons f P)
  then have "GetTypeAsPrimitiveType f \<noteq> kPrimNot" by (simp add: is_reference_field_def)
  moreover have "link_remaining_fields P (off + field_size f)
      = Inr (assign_offsets P (off + field_size f), off + field_size f + total_size P)"
    using Cons by simp
  ultimately show ?case
    by (simp add: Let_def total_size_Cons field_size_def is_64bit_def add.assoc)
qed

lemma narrow_not_reference: "is_narrow_field f \<Longrightarrow> \<not> is_reference_field f"
  by (simp add: is_narrow_field_def is_reference_field_def)

lemma wide_not_reference: "is_wide_field f \<Longrightarrow> \<not> is_reference_field f"
  by (auto simp: is_wide_field_def is_reference_field_def is_64bit_def)

lemma narrow_not_wide: "is_narrow_field f \<Longrightarrow> \<not> is_wide_field f"
  by (simp add: is_narrow_field_def is_wide_field_def)

lemma layout_fields_buckets:
  assumes R: "\<forall>f\<in>set R. is_reference_field f"
    and W: "\<forall>f\<in>set W. is_wide_field f"
    and N: "\<forall>f\<in>set N. is_narrow_field f"
  shows "layout_fields (R @ W @ N) base =
     (let off1 = base + 4 * of_nat (length R)
      in if W @ N \<noteq> [] \<and> \<not> IsAligned8 off1
         then (case N of
                 [] \<Rightarrow> Inr (assign_offsets R base @ assign_offsets W (off1 + 4), length R,
                        off1 + 4 + total_size W)
               | p # N' \<Rightarrow>
                   Inr (assign_offsets R base @ [p\<lparr>field_offset := off1\<rparr>]
                      @ assign_offsets (W @ N') (off1 + 4), length R,
                    off1 + 4 + total_size (W @ N')))
         else Inr (assign_offsets (R @ W @ N) base, length R,
               base + total_size (R @ W @ N)))"
proof -
  have P: "\<forall>f\<in>set (W @ N). \<not> is_reference_field f"
    using W N by (auto dest: narrow_not_reference wide_not_reference)
  have tR: "total_size R = 4 * of_nat (length R)"
    using R by (intro total_size_narrow) (auto dest: reference_not_wide)
  have 1: "link_reference_fields (R @ W @ N) base
      = (assign_offsets R base, W @ N, base + 4 * of_nat (length R))"
    using link_reference_fields_split [OF R P, of base] by (simp add: tR)
  have 2: "find_padding_field (W @ N) = Inr (case N of [] \<Rightarrow> None | p # N' \<Rightarrow> Some (p, W @ N'))"
    by (rule find_padding_field_split [OF W N])
  have 3: "\<And>off. link_remaining_fields (W @ N) off
      = Inr (assign_offsets (W @ N) off, off + total_size (W @ N))"
    by (rule link_remaining_fields_all [OF P])
  show ?thesis
  proof (cases "W @ N \<noteq> [] \<and> \<not> IsAligned8 (base + 4 * of_nat (length R))")
    case False
    then show ?thesis
      unfolding layout_fields_def 1
      by (auto simp: 3 Let_def assign_offsets_append total_size_append tR add.assoc)
  next
    case True
    show ?thesis
    proof (cases N)
      case Nil
      with True show ?thesis
        unfolding layout_fields_def 1
        using 2 3 by (auto simp: Let_def)
    next
      case (Cons p N')
      have P': "\<forall>f\<in>set (W @ N'). \<not> is_reference_field f"
        using P Cons by auto
      have r3: "\<And>off. link_remaining_fields (W @ N') off
        = Inr (assign_offsets (W @ N') off, off + total_size (W @ N'))"
        by (rule link_remaining_fields_all [OF P'])
      from True Cons show ?thesis
        unfolding layout_fields_def 1
        using 2 by (simp add: Let_def r3)
    qed
  qed
qed

lemma assign_offsets_slots:
  "\<forall>f\<in>set xs. field_size f = w \<Longrightarrow> assign_offsets xs off = slots w xs off"
  by (induction xs arbitrary: off) simp_all

lemma field_size_cases:
  "is_reference_field f \<Longrightarrow> field_size f = 4"
  "is_wide_field f \<Longrightarrow> field_size f = 8"
  "is_narrow_field f \<Longrightarrow> field_size f = 4"
  by (auto simp: field_size_def is_reference_field_def is_wide_field_def is_narrow_field_def
      is_64bit_def)

lemma layout_fields_key_sort:
  "layout_fields (key_sort fs) base =
     Inr (fst (spec_field_layout fs base), length (bucket is_reference_field fs),
          snd (spec_field_layout fs base))"
proof -
  let ?R = "bucket is_reference_field fs" and ?W = "bucket is_wide_field fs"
    and ?N = "bucket is_narrow_field fs"
  have R: "\<forall>f\<in>set ?R. is_reference_field f"
    and W: "\<forall>f\<in>set ?W. is_wide_field f"
    and N: "\<forall>f\<in>set ?N. is_narrow_field f"
    by (simp_all add: set_bucket)
  have sR: "\<And>off. assign_offsets ?R off = slots 4 ?R off"
    by (rule assign_offsets_slots) (simp add: R field_size_cases)
  have sW: "\<And>off. assign_offsets ?W off = slots 8 ?W off"
    by (rule assign_offsets_slots) (simp add: W field_size_cases)
  have sN: "\<And>off. assign_offsets ?N off = slots 4 ?N off"
    by (rule assign_offsets_slots) (simp add: N field_size_cases)
  have tR: "total_size ?R = 4 * of_nat (length ?R)"
    using R by (intro total_size_narrow) (auto dest: reference_not_wide)
  have tW: "total_size ?W = 8 * of_nat (length ?W)"
    using W by (rule total_size_wide)
  have tN: "total_size ?N = 4 * of_nat (length ?N)"
    using N by (intro total_size_narrow) (auto dest: narrow_not_wide)
  show ?thesis
  proof (cases ?N)
    case Nil
    then show ?thesis
      unfolding key_sort_buckets [of fs] layout_fields_buckets [OF R W N] spec_field_layout_def bucket_layout_def
      by (simp add: Let_def assign_offsets_append sR sW tR tW total_size_Nil total_size_append add.assoc)
  next
    case (Cons p N')
    have N': "\<forall>f\<in>set N'. is_narrow_field f" using N Cons by simp
    have sN': "\<And>off. assign_offsets N' off = slots 4 N' off"
      by (rule assign_offsets_slots) (simp add: N' field_size_cases)
    have tN': "total_size N' = 4 * of_nat (length N')"
      using N' by (intro total_size_narrow) (auto dest: narrow_not_wide)
    have p: "field_size p = 4" using N Cons by (simp add: field_size_cases)
    from Cons show ?thesis
      unfolding key_sort_buckets [of fs] layout_fields_buckets [OF R W N] spec_field_layout_def bucket_layout_def
      by (simp add: Let_def assign_offsets_append sR sW sN' tR tW tN' total_size_append
          total_size_Cons p add.assoc)
  qed
qed



lemma GetType_offset [simp]:
  "GetTypeAsPrimitiveType (f\<lparr>field_offset := off\<rparr>) = GetTypeAsPrimitiveType f"
  by (simp add: GetTypeAsPrimitiveType_def)

lemma kind_offset [simp]:
  "is_reference_field (f\<lparr>field_offset := off\<rparr>) = is_reference_field f"
  "is_wide_field (f\<lparr>field_offset := off\<rparr>) = is_wide_field f"
  "is_narrow_field (f\<lparr>field_offset := off\<rparr>) = is_narrow_field f"
  by (simp_all add: is_reference_field_def is_wide_field_def is_narrow_field_def)

lemma length_slots [simp]: "length (slots w xs off) = length xs"
  by (induction xs arbitrary: off) simp_all

lemma slots_Nil_iff [simp]: "slots w xs off = [] \<longleftrightarrow> xs = []"
  by (cases xs) simp_all

lemma slots_slots [simp]: "slots w (slots w' xs off') off = slots w xs off"
  by (induction xs arbitrary: off off') simp_all

lemma map_name_slots [simp]: "map field_name (slots w xs off) = map field_name xs"
  by (induction xs arbitrary: off) simp_all



lemma sorted_bucket: "sorted (map field_name (bucket P fs))"
  by (simp add: bucket_def)

lemma bucket_sorted_id:
  assumes "\<forall>f\<in>set xs. P f" and "sorted (map field_name xs)"
  shows "bucket P xs = xs"
  using assms by (simp add: bucket_def filter_id_conv sort_key_id_if_sorted)

lemma bucket_append: "filter P (xs @ ys) = filter P xs @ filter P ys"
  by simp


lemma spec_field_layout_aligned:
  assumes "bucket is_reference_field fs = R" "bucket is_wide_field fs = W"
    "bucket is_narrow_field fs = N"
    and "\<not> ((W \<noteq> [] \<or> N \<noteq> []) \<and> \<not> IsAligned8 (base + 4 * of_nat (length R)))"
  shows "spec_field_layout fs base
        = (slots 4 R base @ [] @ slots 8 W (base + 4 * of_nat (length R))
             @ slots 4 N (base + 4 * of_nat (length R) + 8 * of_nat (length W)),
           base + 4 * of_nat (length R) + 8 * of_nat (length W) + 4 * of_nat (length N))"
  using assms by (auto simp: spec_field_layout_def bucket_layout_def Let_def)

lemma spec_field_layout_gap:
  assumes "bucket is_reference_field fs = R" "bucket is_wide_field fs = W"
    "bucket is_narrow_field fs = []"
    and "W \<noteq> []" "\<not> IsAligned8 (base + 4 * of_nat (length R))"
  shows "spec_field_layout fs base
        = (slots 4 R base @ [] @ slots 8 W (base + 4 * of_nat (length R) + 4)
             @ slots 4 [] (base + 4 * of_nat (length R) + 4 + 8 * of_nat (length W)),
           base + 4 * of_nat (length R) + 4 + 8 * of_nat (length W))"
  using assms by (auto simp: spec_field_layout_def bucket_layout_def Let_def)

lemma spec_field_layout_pad:
  assumes "bucket is_reference_field fs = R" "bucket is_wide_field fs = W"
    "bucket is_narrow_field fs = p # n"
    and "\<not> IsAligned8 (base + 4 * of_nat (length R))"
  shows "spec_field_layout fs base
        = (slots 4 R base @ [p\<lparr>field_offset := base + 4 * of_nat (length R)\<rparr>]
             @ slots 8 W (base + 4 * of_nat (length R) + 4)
             @ slots 4 n (base + 4 * of_nat (length R) + 4 + 8 * of_nat (length W)),
           base + 4 * of_nat (length R) + 4 + 8 * of_nat (length W) + 4 * of_nat (length n))"
  using assms by (auto simp: spec_field_layout_def bucket_layout_def Let_def)







lemma update_klass_fields:
  assumes "update_klass klass is_static fs n sz = Inr klass'"
  shows "fields_of klass' is_static = fs" "super_class klass' = super_class klass"
    "descriptor klass' = descriptor klass"
  using assms
  by (auto simp: update_klass_def fields_of_def Let_def split: if_splits)




subsection \<open>The size precomputed by \<^verbatim>\<open>SizeOfClass\<close>\<close>

lemma length_bucket: "length (bucket P fs) = length (filter P fs)"
  by (simp add: bucket_def)

lemma count_static_fields_eq:
  assumes "\<forall>f\<in>set fs. GetTypeAsPrimitiveType f = kPrimNot \<longrightarrow> reference_descriptor (field_type_descriptor f)"
  shows "count_static_fields (map field_type_descriptor fs) (a, b, c)
       = (a + length (filter is_reference_field fs), b + length (filter is_narrow_field fs),
          c + length (filter is_wide_field fs))"
  using assms
proof (induction fs arbitrary: a b c)
  case Nil
  then show ?case by simp
next
  case (Cons f fs)
  then have IH: "\<And>a b c. count_static_fields (map field_type_descriptor fs) (a, b, c)
       = (a + length (filter is_reference_field fs), b + length (filter is_narrow_field fs),
          c + length (filter is_wide_field fs))"
    by simp
  have wf: "GetTypeAsPrimitiveType f = kPrimNot \<longrightarrow> reference_descriptor (field_type_descriptor f)"
    using Cons.prems by simp
  show ?case
  proof (cases "field_type_descriptor f")
    case Nil
    with wf show ?thesis
      by (simp add: GetTypeAsPrimitiveType_def reference_descriptor_def)
  next
    case (Cons ch rest)
    have r: "(ch = CHR ''L'' \<or> ch = CHR ''['') \<longleftrightarrow> is_reference_field f"
      using wf Cons
      by (auto simp: is_reference_field_def GetTypeAsPrimitiveType_def reference_descriptor_def
          Primitive_GetType_def)
    have w: "(ch = CHR ''J'' \<or> ch = CHR ''D'') \<longleftrightarrow> is_wide_field f"
      using Cons
      by (auto simp: is_wide_field_def is_64bit_def GetTypeAsPrimitiveType_def
          Primitive_GetType_def)
    have n: "is_narrow_field f \<longleftrightarrow> \<not> is_reference_field f \<and> \<not> is_wide_field f"
      by (auto simp: is_narrow_field_def is_reference_field_def is_wide_field_def)
    have x: "\<not> (is_reference_field f \<and> is_wide_field f)"
      by (auto simp: is_reference_field_def is_wide_field_def is_64bit_def)
    show ?thesis
      using x by (simp add: Cons IH r w n Let_def)
  qed
qed

lemma SizeOfClass_spec:
  assumes "\<forall>f\<in>set fs. GetTypeAsPrimitiveType f = kPrimNot \<longrightarrow> reference_descriptor (field_type_descriptor f)"
  shows "SizeOfClass base (map field_type_descriptor fs) = snd (spec_field_layout fs base)"
proof -
  let ?R = "bucket is_reference_field fs" and ?W = "bucket is_wide_field fs"
    and ?N = "bucket is_narrow_field fs"
  let ?off1 = "base + 4 * of_nat (length ?R)"
  have cnt: "count_static_fields (map field_type_descriptor fs) (0, 0, 0)
      = (length ?R, length ?N, length ?W)"
    using count_static_fields_eq [OF assms, of 0 0 0] by (simp add: length_bucket)
  have size: "SizeOfClass base (map field_type_descriptor fs)
      = (if length ?W \<noteq> 0 \<and> \<not> IsAligned8 ?off1
         then ?off1 + 4 + of_nat (length ?W) * 8
              + of_nat (if length ?N \<noteq> 0 then length ?N - 1 else length ?N) * 4
         else ?off1 + of_nat (length ?W) * 8 + of_nat (length ?N) * 4)"
    unfolding SizeOfClass_def cnt
    by (simp add: Let_def IsAligned8_RoundUp8 [symmetric] mult.commute)
  show ?thesis
  proof (cases "(?W \<noteq> [] \<or> ?N \<noteq> []) \<and> \<not> IsAligned8 ?off1")
    case False
    show ?thesis
      unfolding size spec_field_layout_aligned [OF refl refl refl False]
      using False by (auto simp: mult.commute)
  next
    case True
    then have unal: "\<not> IsAligned8 ?off1" by simp
    show ?thesis
    proof (cases ?N)
      case Nil
      with True have Wne: "?W \<noteq> []" by simp
      show ?thesis
        unfolding size spec_field_layout_gap [OF refl refl Nil Wne unal]
        using Wne unal Nil by (simp add: mult.commute)
    next
      case (Cons p n)
      show ?thesis
        unfolding size spec_field_layout_pad [OF refl refl Cons unal]
        using unal Cons by (simp add: algebra_simps)
    qed
  qed
qed


subsection \<open>The contract of \<^verbatim>\<open>std::sort\<close>\<close>

lemma not_LinkFieldsComparator:
  "\<not> LinkFieldsComparator b a \<longleftrightarrow> LinkFields_key a \<le> LinkFields_key b"
  by (simp add: LinkFieldsComparator_key not_less)

lemma contract_iff:
  "std_sort_contract srt \<longleftrightarrow>
     (\<forall>fs. mset (srt fs) = mset fs \<and> sorted (map LinkFields_key (srt fs)))"
  by (simp add: std_sort_contract_def not_LinkFieldsComparator sorted_map)

lemma contract_mset: "std_sort_contract srt \<Longrightarrow> mset (srt fs) = mset fs"
  by (simp add: contract_iff)

lemma contract_sorted: "std_sort_contract srt \<Longrightarrow> sorted (map LinkFields_key (srt fs))"
  by (simp add: contract_iff)

lemma contract_length: "std_sort_contract srt \<Longrightarrow> length (srt fs) = length fs"
  using contract_mset [of srt fs] by (metis size_mset)


lemma key_sort_contract: "std_sort_contract key_sort"
  by (simp add: contract_iff key_sort_def)

lemma example_std_sort_contract: "std_sort_contract example_std_sort"
proof -
  have "example_std_sort = key_sort"
    by (simp add: fun_eq_iff example_std_sort_def foldr_sort_insert)
  then show ?thesis by (simp add: key_sort_contract)
qed


lemma key_sort_sorted_id: "sorted (map LinkFields_key xs) \<Longrightarrow> key_sort xs = xs"
  by (simp add: key_sort_def sort_key_id_if_sorted)

text \<open>The three loops on a list that is sorted for the comparator.\<close>

lemma layout_fields_sorted:
  assumes "sorted (map LinkFields_key xs)"
  shows "layout_fields xs base =
           Inr (fst (spec_field_layout xs base), length (bucket is_reference_field xs),
                snd (spec_field_layout xs base))"
  using layout_fields_key_sort [of xs base] key_sort_sorted_id [OF assms] by simp

lemma mset_bucket: "mset (bucket P fs) = mset (filter P fs)"
  by (simp add: bucket_def)

lemma mset_bucket_contract:
  "std_sort_contract srt \<Longrightarrow> mset (bucket P (srt fs)) = mset (filter P fs)"
  by (simp add: mset_bucket contract_mset)

lemma length_bucket_contract:
  "std_sort_contract srt \<Longrightarrow> length (bucket P (srt fs)) = length (bucket P fs)"
  using mset_bucket_contract [of srt P fs] mset_bucket [of P fs] by (metis size_mset)

lemma LinkFields_contract_Inr_iff:
  assumes "std_sort_contract srt"
  shows "LinkFields srt FO heap klass is_static = Inr klass' \<longleftrightarrow>
     (\<exists>base n.
        initial_field_offset FO heap klass is_static = Inr base \<and>
        hide_referent klass is_static
           (fst (spec_field_layout (srt (fields_of klass is_static)) base))
           (length (fields_of klass is_static))
           (length (bucket is_reference_field (srt (fields_of klass is_static)))) = Inr n \<and>
        update_klass klass is_static
           (fst (spec_field_layout (srt (fields_of klass is_static)) base)) n
           (snd (spec_field_layout (srt (fields_of klass is_static)) base)) = Inr klass')"
  unfolding LinkFields_def fields_of_def
  by (auto simp: Let_def layout_fields_sorted [OF contract_sorted [OF assms]] split: sum.splits)

lemma initial_field_offset_Inr:
  "initial_field_offset FO heap klass is_static = Inr base \<Longrightarrow>
     base = (if is_static then FO
             else (case super_class klass of None \<Rightarrow> 0
                   | Some super \<Rightarrow> object_size (heap super)))"
  by (auto simp: initial_field_offset_def split: if_splits option.splits)

lemma snd_bucket_layout_length:
  assumes "length R = length R'" "length W = length W'" "length N = length N'"
  shows "snd (bucket_layout R W N base) = snd (bucket_layout R' W' N' base)"
proof -
  have e: "(W = []) = (W' = [])" "(N = []) = (N' = [])"
    using assms by (metis length_0_conv)+
  show ?thesis
  proof (cases N)
    case Nil
    then have "N' = []" using e by simp
    with Nil show ?thesis using assms e by (simp add: bucket_layout_def Let_def)
  next
    case (Cons p n)
    then obtain p' n' where N': "N' = p' # n'" using e by (cases N') auto
    then have "length n = length n'" using assms Cons by simp
    with Cons N' show ?thesis using assms e by (simp add: bucket_layout_def Let_def)
  qed
qed

lemma snd_spec_field_layout_contract:
  assumes "std_sort_contract srt"
  shows "snd (spec_field_layout (srt fs) base) = snd (spec_field_layout fs base)"
  unfolding spec_field_layout_def
  by (rule snd_bucket_layout_length) (simp_all add: length_bucket_contract [OF assms])

subsection \<open>Fields that the comparator distinguishes\<close>




lemma key_offset [simp]: "LinkFields_key (f\<lparr>field_offset := off\<rparr>) = LinkFields_key f"
  by (simp add: LinkFields_key_def)

lemma map_key_slots [simp]: "map LinkFields_key (slots w xs off) = map LinkFields_key xs"
  by (induction xs arbitrary: off) simp_all

lemma image_mset_key_slots [simp]:
  "image_mset LinkFields_key (mset (slots w xs off)) = image_mset LinkFields_key (mset xs)"
  using map_key_slots [of w xs off] by (metis mset_map)




subsection \<open>Field layout: the claims\<close>

lemmas example_simps = example_Sub_def example_Base_def example_heap_def example_fields_def
  LinkFields_def initial_field_offset_def hide_referent_def update_klass_def
  IsResolved_def example_std_sort_def example_reversing_sort_def LinkFieldsComparator_def
  GetTypeAsPrimitiveType_def Primitive_GetType_def field_order_def layout_fields_def
  IsAligned8_def Let_def

lemmas example_kind_simps = is_reference_field_def is_wide_field_def is_narrow_field_def
  is_64bit_def GetTypeAsPrimitiveType_def Primitive_GetType_def

text \<open>Claim C2.  Let \<^verbatim>\<open>std::sort\<close> keep its contract, and let \<^verbatim>\<open>LinkFields(klass, is_static)\<close>
  return.  Then the field array it leaves is a three-bucket layout: there are the reference
  fields of the class in an order sorted by name, its 64-bit fields in an order sorted by
  name and its 32-bit fields in an order sorted by name, such that the array has the
  reference fields in consecutive 4-byte slots from the base offset (the fields offset of the
  class object for static fields, the object size of the superclass, or 0 without one, for
  instance fields); then, when primitive fields remain and the offset is not 8-byte aligned,
  the first 32-bit field if there is one and a 4-byte gap otherwise; then the 64-bit fields;
  then the remaining 32-bit fields.  (The order of fields of one kind and one name is the one
  that the sort leaves.)\<close>

theorem LinkFields_three_bucket_layout:
  assumes "std_sort_contract std_sort"
    and "LinkFields std_sort Class_FieldsOffset heap klass is_static = Inr klass'"
  shows "\<exists>refs wide narrow.
           mset refs = mset (filter is_reference_field (fields_of klass is_static)) \<and>
           sorted (map field_name refs) \<and>
           mset wide = mset (filter is_wide_field (fields_of klass is_static)) \<and>
           sorted (map field_name wide) \<and>
           mset narrow = mset (filter is_narrow_field (fields_of klass is_static)) \<and>
           sorted (map field_name narrow) \<and>
           fields_of klass' is_static =
             fst (bucket_layout refs wide narrow
                    (if is_static then Class_FieldsOffset
                     else (case super_class klass of None \<Rightarrow> 0
                           | Some super \<Rightarrow> object_size (heap super))))"
proof -
  let ?xs = "std_sort (fields_of klass is_static)"
  from assms(2) obtain base n where
    b: "initial_field_offset Class_FieldsOffset heap klass is_static = Inr base"
    and u: "update_klass klass is_static (fst (spec_field_layout ?xs base)) n
             (snd (spec_field_layout ?xs base)) = Inr klass'"
    unfolding LinkFields_contract_Inr_iff [OF assms(1)] by blast
  have "fields_of klass' is_static =
          fst (bucket_layout (bucket is_reference_field ?xs) (bucket is_wide_field ?xs)
                 (bucket is_narrow_field ?xs) base)"
    using update_klass_fields(1) [OF u] by (simp add: spec_field_layout_def)
  then show ?thesis
    unfolding initial_field_offset_Inr [OF b, symmetric]
    using mset_bucket_contract [OF assms(1)] sorted_bucket by blast
qed

theorem LinkFields_three_bucket_layout_witness:
  "LinkFields example_std_sort 120 example_heap example_Sub False =
     Inr (example_Sub\<lparr>ifields :=
        [\<lparr>field_name = ''refField'', field_type_descriptor = ''Ljava/lang/Object;'', field_offset = 12\<rparr>,
         \<lparr>field_name = ''refField2'', field_type_descriptor = ''[I'', field_offset = 16\<rparr>,
         \<lparr>field_name = ''intField'', field_type_descriptor = ''I'', field_offset = 20\<rparr>,
         \<lparr>field_name = ''longField'', field_type_descriptor = ''J'', field_offset = 24\<rparr>],
         num_reference_instance_fields := 2, object_size := 32\<rparr>)
   \<and> (\<exists>refs wide narrow.
        mset refs =
          mset [\<lparr>field_name = ''refField'', field_type_descriptor = ''Ljava/lang/Object;'', field_offset = 0\<rparr>,
                \<lparr>field_name = ''refField2'', field_type_descriptor = ''[I'', field_offset = 0\<rparr>] \<and>
        sorted (map field_name refs) \<and>
        mset wide = mset [\<lparr>field_name = ''longField'', field_type_descriptor = ''J'', field_offset = 0\<rparr>] \<and>
        mset narrow = mset [\<lparr>field_name = ''intField'', field_type_descriptor = ''I'', field_offset = 0\<rparr>] \<and>
        [\<lparr>field_name = ''refField'', field_type_descriptor = ''Ljava/lang/Object;'', field_offset = 12\<rparr>,
         \<lparr>field_name = ''refField2'', field_type_descriptor = ''[I'', field_offset = 16\<rparr>,
         \<lparr>field_name = ''intField'', field_type_descriptor = ''I'', field_offset = 20\<rparr>,
         \<lparr>field_name = ''longField'', field_type_descriptor = ''J'', field_offset = 24\<rparr>]
          = fst (bucket_layout refs wide narrow 12))"
proof -
  have h: "LinkFields example_std_sort 120 example_heap example_Sub False =
     Inr (example_Sub\<lparr>ifields :=
        [\<lparr>field_name = ''refField'', field_type_descriptor = ''Ljava/lang/Object;'', field_offset = 12\<rparr>,
         \<lparr>field_name = ''refField2'', field_type_descriptor = ''[I'', field_offset = 16\<rparr>,
         \<lparr>field_name = ''intField'', field_type_descriptor = ''I'', field_offset = 20\<rparr>,
         \<lparr>field_name = ''longField'', field_type_descriptor = ''J'', field_offset = 24\<rparr>],
         num_reference_instance_fields := 2, object_size := 32\<rparr>)"
    by (simp add: example_simps)
  from LinkFields_three_bucket_layout [OF example_std_sort_contract h]
  obtain refs wide narrow where
    "mset refs = mset (filter is_reference_field (fields_of example_Sub False))"
    "sorted (map field_name refs)"
    "mset wide = mset (filter is_wide_field (fields_of example_Sub False))"
    "mset narrow = mset (filter is_narrow_field (fields_of example_Sub False))"
    "fields_of (example_Sub\<lparr>ifields :=
        [\<lparr>field_name = ''refField'', field_type_descriptor = ''Ljava/lang/Object;'', field_offset = 12\<rparr>,
         \<lparr>field_name = ''refField2'', field_type_descriptor = ''[I'', field_offset = 16\<rparr>,
         \<lparr>field_name = ''intField'', field_type_descriptor = ''I'', field_offset = 20\<rparr>,
         \<lparr>field_name = ''longField'', field_type_descriptor = ''J'', field_offset = 24\<rparr>],
         num_reference_instance_fields := 2, object_size := 32\<rparr>) False
      = fst (bucket_layout refs wide narrow
               (case super_class example_Sub of None \<Rightarrow> 0
                | Some super \<Rightarrow> object_size (example_heap super)))"
    by auto
  then have
    "mset refs =
          mset [\<lparr>field_name = ''refField'', field_type_descriptor = ''Ljava/lang/Object;'', field_offset = 0\<rparr>,
                \<lparr>field_name = ''refField2'', field_type_descriptor = ''[I'', field_offset = 0\<rparr>] \<and>
     sorted (map field_name refs) \<and>
     mset wide = mset [\<lparr>field_name = ''longField'', field_type_descriptor = ''J'', field_offset = 0\<rparr>] \<and>
     mset narrow = mset [\<lparr>field_name = ''intField'', field_type_descriptor = ''I'', field_offset = 0\<rparr>] \<and>
     [\<lparr>field_name = ''refField'', field_type_descriptor = ''Ljava/lang/Object;'', field_offset = 12\<rparr>,
      \<lparr>field_name = ''refField2'', field_type_descriptor = ''[I'', field_offset = 16\<rparr>,
      \<lparr>field_name = ''intField'', field_type_descriptor = ''I'', field_offset = 20\<rparr>,
      \<lparr>field_name = ''longField'', field_type_descriptor = ''J'', field_offset = 24\<rparr>]
       = fst (bucket_layout refs wide narrow 12)"
    by (simp add: fields_of_def example_Sub_def example_heap_def example_Base_def
          example_fields_def example_kind_simps)
  with h show ?thesis by blast
qed





text \<open>Claim C9.  Let \<^verbatim>\<open>std::sort\<close> keep its contract.  For a class whose static fields carry
  well-formed type descriptors (a field that the layout treats as a reference has a
  descriptor that starts with \<^verbatim>\<open>L\<close> or \<^verbatim>\<open>[\<close>), and with \<^verbatim>\<open>sizeof(mirror::Class)\<close> equal to
  \<^verbatim>\<open>Class::FieldsOffset()\<close>, the size that \<^verbatim>\<open>SizeOfClass\<close> precomputes from the descriptors
  is the class size that \<^verbatim>\<open>LinkFields(klass, true)\<close> records; a class allocated with that
  size passes the check of \<^verbatim>\<open>LinkStaticFields\<close>.\<close>

theorem SizeOfClass_matches_LinkFields:
  assumes "std_sort_contract std_sort"
    and "sizeof_Class = Class_FieldsOffset"
    and "\<forall>f\<in>set (sfields klass). GetTypeAsPrimitiveType f = kPrimNot
           \<longrightarrow> reference_descriptor (field_type_descriptor f)"
  shows "\<exists>klass'. LinkFields std_sort Class_FieldsOffset heap klass True = Inr klass'
           \<and> class_size klass' = SizeOfClass sizeof_Class (map field_type_descriptor (sfields klass))
           \<and> (class_size klass = SizeOfClass sizeof_Class (map field_type_descriptor (sfields klass))
                \<longrightarrow> LinkStaticFields std_sort Class_FieldsOffset heap klass = Inr klass')"
proof -
  let ?xs = "std_sort (sfields klass)"
  let ?out = "fst (spec_field_layout ?xs Class_FieldsOffset)"
  let ?sz = "snd (spec_field_layout ?xs Class_FieldsOffset)"
  let ?k = "klass\<lparr>sfields := ?out,
                   num_reference_static_fields := length (bucket is_reference_field ?xs),
                   class_size := ?sz\<rparr>"
  have l: "LinkFields std_sort Class_FieldsOffset heap klass True = Inr ?k"
    unfolding LinkFields_contract_Inr_iff [OF assms(1)]
    by (simp add: initial_field_offset_def hide_referent_def update_klass_def fields_of_def)
  have s: "SizeOfClass sizeof_Class (map field_type_descriptor (sfields klass)) = ?sz"
    using SizeOfClass_spec [OF assms(3)] assms(2)
    by (simp add: snd_spec_field_layout_contract [OF assms(1)])
  have c: "class_size ?k = ?sz" by simp
  show ?thesis
    unfolding LinkStaticFields_def Let_def l s using c by auto
qed

theorem SizeOfClass_matches_LinkFields_witness:
  "SizeOfClass 120 (map field_type_descriptor (sfields example_Sub)) = 140
   \<and> class_size example_Sub = 140
   \<and> (\<exists>klass'. LinkStaticFields example_std_sort 120 example_heap example_Sub = Inr klass'
                \<and> class_size klass' = 140)"
proof -
  have wf: "\<forall>f\<in>set (sfields example_Sub). GetTypeAsPrimitiveType f = kPrimNot
           \<longrightarrow> reference_descriptor (field_type_descriptor f)"
    by (simp add: example_Sub_def example_fields_def reference_descriptor_def
        GetTypeAsPrimitiveType_def Primitive_GetType_def)
  have sz: "SizeOfClass 120 (map field_type_descriptor (sfields example_Sub)) = 140"
    by (simp add: SizeOfClass_def example_Sub_def example_fields_def RoundUp8_def Let_def)
  have cs: "class_size example_Sub = 140" by (simp add: example_Sub_def)
  from SizeOfClass_matches_LinkFields [OF example_std_sort_contract refl wf, of 120 example_heap]
    sz cs
  show ?thesis by auto
qed

subsection \<open>The class table\<close>









lemma lookup_entries_mem:
  "lookup_entries heap tbl d loader hash = Some k \<Longrightarrow> (hash, k) \<in> set tbl"
  by (induction tbl) (auto split: if_splits)






lemma move_types_result:
  assumes "move_types pf heap types cl = Inr cl'"
  shows "set (class_table cl) \<subseteq> set (class_table cl')
       \<and> (\<forall>k. Some k \<in> set types \<longrightarrow> (Hash pf (descriptor (heap k)), k) \<in> set (class_table cl'))
       \<and> dex_cache_image_class_lookup_required cl' = dex_cache_image_class_lookup_required cl
       \<and> failed_dex_cache_class_lookups cl' = failed_dex_cache_class_lookups cl
       \<and> image_dex_caches cl' = image_dex_caches cl"
  using assms
proof (induction types arbitrary: cl)
  case Nil
  then show ?case by simp
next
  case (Cons t types)
  show ?case
  proof (cases t)
    case None
    with Cons.prems have "move_types pf heap types cl = Inr cl'" by simp
    from Cons.IH [OF this] None show ?thesis by auto
  next
    case (Some klass)
    let ?d = "descriptor (heap klass)"
    show ?thesis
    proof (cases "LookupClassFromTableLocked heap cl ?d None (Hash pf ?d)")
      case None
      let ?cl1 = "cl\<lparr>class_table := class_table cl @ [(Hash pf ?d, klass)],
                    new_class_roots :=
                      (if log_new_class_table_roots cl then new_class_roots cl @ [(Hash pf ?d, klass)]
                       else new_class_roots cl)\<rparr>"
      from Cons.prems Some None have m: "move_types pf heap types ?cl1 = Inr cl'"
        by (simp add: Let_def)
      from Cons.IH [OF m] Some show ?thesis by auto
    next
      case existing: (Some existing)
      with Cons.prems Some have e: "existing = klass"
        and m: "move_types pf heap types cl = Inr cl'"
        by (auto simp: Let_def split: if_splits)
      have "(Hash pf ?d, klass) \<in> set (class_table cl)"
        using lookup_entries_mem [OF existing [unfolded LookupClassFromTableLocked_def]] e by simp
      with Cons.IH [OF m] Some show ?thesis by auto
    qed
  qed
qed

lemma move_dex_caches_result:
  assumes "move_dex_caches pf heap dex_caches cl = Inr cl'"
  shows "set (class_table cl) \<subseteq> set (class_table cl')
       \<and> (\<forall>k\<in>image_classes dex_caches. (Hash pf (descriptor (heap k)), k) \<in> set (class_table cl'))
       \<and> dex_cache_image_class_lookup_required cl' = dex_cache_image_class_lookup_required cl
       \<and> failed_dex_cache_class_lookups cl' = failed_dex_cache_class_lookups cl
       \<and> image_dex_caches cl' = image_dex_caches cl"
  using assms
proof (induction dex_caches arbitrary: cl)
  case Nil
  then show ?case by (simp add: image_classes_def)
next
  case (Cons dc dcs)
  from Cons.prems obtain cl1 where m1: "move_types pf heap (map snd dc) cl = Inr cl1"
    and m2: "move_dex_caches pf heap dcs cl1 = Inr cl'"
    by (auto split: sum.splits)
  note r1 = move_types_result [OF m1]
  note r2 = Cons.IH [OF m2]
  have sub: "set (class_table cl) \<subseteq> set (class_table cl')" using r1 r2 by blast
  have "(Hash pf (descriptor (heap k)), k) \<in> set (class_table cl')"
    if "k \<in> image_classes (dc # dcs)" for k
  proof -
    from that consider d where "(d, Some k) \<in> set dc" | "k \<in> image_classes dcs"
      by (auto simp: image_classes_def)
    then show ?thesis
    proof cases
      case 1
      then have "Some k \<in> set (map snd dc)" by force
      with r1 r2 show ?thesis by blast
    next
      case 2
      with r2 show ?thesis by blast
    qed
  qed
  with sub r1 r2 show ?case by auto
qed

lemma MoveImageClassesToClassTable_result:
  assumes "MoveImageClassesToClassTable pf heap cl = Inr cl'"
    and "dex_cache_image_class_lookup_required cl" and "image_dex_caches cl = Some dex_caches"
  shows "\<not> dex_cache_image_class_lookup_required cl'
       \<and> set (class_table cl) \<subseteq> set (class_table cl')
       \<and> (\<forall>k\<in>image_classes dex_caches. (Hash pf (descriptor (heap k)), k) \<in> set (class_table cl'))
       \<and> failed_dex_cache_class_lookups cl' = failed_dex_cache_class_lookups cl"
proof -
  from assms obtain cl1 where m: "move_dex_caches pf heap dex_caches cl = Inr cl1"
    and c: "cl' = cl1\<lparr>dex_cache_image_class_lookup_required := False\<rparr>"
    by (auto simp: MoveImageClassesToClassTable_def split: sum.splits)
  from move_dex_caches_result [OF m] c show ?thesis by simp
qed

lemma InsertClass_counter:
  "failed_dex_cache_class_lookups (snd (InsertClass heap cl d k hash)) = failed_dex_cache_class_lookups cl"
  "dex_cache_image_class_lookup_required (snd (InsertClass heap cl d k hash))
     = dex_cache_image_class_lookup_required cl"
  by (simp_all add: InsertClass_def split: option.splits)

lemma LookupClass_hit:
  "LookupClassFromTableLocked heap cl d loader (Hash pf d) = Some k
     \<Longrightarrow> LookupClass pf heap cl d loader = Inr (Some k, cl)"
  by (simp add: LookupClass_def Let_def)

lemma LookupClass_no_fallback:
  "LookupClassFromTableLocked heap cl d loader (Hash pf d) = None
     \<Longrightarrow> loader \<noteq> None \<or> \<not> dex_cache_image_class_lookup_required cl
     \<Longrightarrow> LookupClass pf heap cl d loader = Inr (None, cl)"
  by (auto simp: LookupClass_def Let_def)

lemma LookupClass_image_hit:
  "LookupClassFromTableLocked heap cl d None (Hash pf d) = None
     \<Longrightarrow> dex_cache_image_class_lookup_required cl
     \<Longrightarrow> image_dex_caches cl = Some dcs
     \<Longrightarrow> lookup_dex_caches dcs d = Some k
     \<Longrightarrow> LookupClass pf heap cl d None = Inr (Some k, snd (InsertClass heap cl d k (Hash pf d)))"
  by (simp add: LookupClass_def Let_def LookupClassFromImage_def)

lemma LookupClass_image_miss:
  "LookupClassFromTableLocked heap cl d None (Hash pf d) = None
     \<Longrightarrow> dex_cache_image_class_lookup_required cl
     \<Longrightarrow> image_dex_caches cl = Some dcs
     \<Longrightarrow> lookup_dex_caches dcs d = None
     \<Longrightarrow> LookupClass pf heap cl d None =
          (if failed_dex_cache_class_lookups cl + 1 > kMaxFailedDexCacheLookups
           then (case MoveImageClassesToClassTable pf heap
                        (cl\<lparr>failed_dex_cache_class_lookups := failed_dex_cache_class_lookups cl + 1\<rparr>) of
                   Inl a \<Rightarrow> Inl a
                 | Inr cl2 \<Rightarrow> Inr (None, cl2))
           else Inr (None, cl\<lparr>failed_dex_cache_class_lookups := failed_dex_cache_class_lookups cl + 1\<rparr>))"
  by (simp add: LookupClass_def Let_def LookupClassFromImage_def)

lemma InsertClass_bootstrap:
  assumes "LookupClassFromTableLocked heap cl d None hash = None" and "class_loader (heap k) = None"
  shows "snd (InsertClass heap cl d k hash) = with_class cl hash k"
  using assms by (simp add: InsertClass_def with_class_def)

text \<open>Claim C8, as amended.  A hit in the class table is returned and nothing changes.  A
  miss with a loader other than the bootstrap loader, or when the image lookup is not
  required, returns \<^verbatim>\<open>NULL\<close> and nothing changes.  A miss with the bootstrap loader while the
  image lookup is required scans the dex caches of the image: a class found is inserted into
  the table and returned, and the counter of failed lookups keeps its value; a class not
  found adds one to the counter, and when the counter then exceeds
  \<^verbatim>\<open>kMaxFailedDexCacheLookups\<close> (1000 failed lookups in total, whether consecutive or not) all
  classes of the image are moved into the table and the image lookup is no longer
  required.\<close>

theorem LookupClass_image_fallback:
  "(LookupClassFromTableLocked heap cl d loader (Hash pf d) = Some k \<longrightarrow>
      LookupClass pf heap cl d loader = Inr (Some k, cl))
   \<and> (LookupClassFromTableLocked heap cl d loader (Hash pf d) = None
        \<and> (loader \<noteq> None \<or> \<not> dex_cache_image_class_lookup_required cl) \<longrightarrow>
      LookupClass pf heap cl d loader = Inr (None, cl))
   \<and> (LookupClassFromTableLocked heap cl d None (Hash pf d) = None
        \<and> dex_cache_image_class_lookup_required cl \<and> image_dex_caches cl = Some dcs
        \<and> lookup_dex_caches dcs d = Some k \<longrightarrow>
      LookupClass pf heap cl d None = Inr (Some k, snd (InsertClass heap cl d k (Hash pf d)))
      \<and> failed_dex_cache_class_lookups (snd (InsertClass heap cl d k (Hash pf d)))
          = failed_dex_cache_class_lookups cl
      \<and> dex_cache_image_class_lookup_required (snd (InsertClass heap cl d k (Hash pf d)))
      \<and> (class_loader (heap k) = None \<longrightarrow>
            snd (InsertClass heap cl d k (Hash pf d)) = with_class cl (Hash pf d) k))
   \<and> (LookupClassFromTableLocked heap cl d None (Hash pf d) = None
        \<and> dex_cache_image_class_lookup_required cl \<and> image_dex_caches cl = Some dcs
        \<and> lookup_dex_caches dcs d = None
        \<and> failed_dex_cache_class_lookups cl + 1 \<le> kMaxFailedDexCacheLookups \<longrightarrow>
      LookupClass pf heap cl d None
        = Inr (None, cl\<lparr>failed_dex_cache_class_lookups := failed_dex_cache_class_lookups cl + 1\<rparr>))
   \<and> (LookupClassFromTableLocked heap cl d None (Hash pf d) = None
        \<and> dex_cache_image_class_lookup_required cl \<and> image_dex_caches cl = Some dcs
        \<and> lookup_dex_caches dcs d = None
        \<and> failed_dex_cache_class_lookups cl + 1 > kMaxFailedDexCacheLookups
        \<and> LookupClass pf heap cl d None = Inr (result, cl') \<longrightarrow>
      result = None
      \<and> \<not> dex_cache_image_class_lookup_required cl'
      \<and> failed_dex_cache_class_lookups cl' = failed_dex_cache_class_lookups cl + 1
      \<and> set (class_table cl) \<subseteq> set (class_table cl')
      \<and> (\<forall>c\<in>image_classes dcs. (Hash pf (descriptor (heap c)), c) \<in> set (class_table cl')))"
proof (intro conjI impI)
  assume "LookupClassFromTableLocked heap cl d loader (Hash pf d) = Some k"
  then show "LookupClass pf heap cl d loader = Inr (Some k, cl)" by (rule LookupClass_hit)
next
  assume "LookupClassFromTableLocked heap cl d loader (Hash pf d) = None
        \<and> (loader \<noteq> None \<or> \<not> dex_cache_image_class_lookup_required cl)"
  then show "LookupClass pf heap cl d loader = Inr (None, cl)"
    using LookupClass_no_fallback by blast
next
  assume a: "LookupClassFromTableLocked heap cl d None (Hash pf d) = None
        \<and> dex_cache_image_class_lookup_required cl \<and> image_dex_caches cl = Some dcs
        \<and> lookup_dex_caches dcs d = Some k"
  then show "LookupClass pf heap cl d None = Inr (Some k, snd (InsertClass heap cl d k (Hash pf d)))"
    using LookupClass_image_hit by blast
  show "failed_dex_cache_class_lookups (snd (InsertClass heap cl d k (Hash pf d)))
          = failed_dex_cache_class_lookups cl"
    by (rule InsertClass_counter)
  show "dex_cache_image_class_lookup_required (snd (InsertClass heap cl d k (Hash pf d)))"
    using a by (simp add: InsertClass_counter)
  show "snd (InsertClass heap cl d k (Hash pf d)) = with_class cl (Hash pf d) k"
    if "class_loader (heap k) = None"
    using a that InsertClass_bootstrap by blast
next
  assume a: "LookupClassFromTableLocked heap cl d None (Hash pf d) = None
        \<and> dex_cache_image_class_lookup_required cl \<and> image_dex_caches cl = Some dcs
        \<and> lookup_dex_caches dcs d = None
        \<and> failed_dex_cache_class_lookups cl + 1 \<le> kMaxFailedDexCacheLookups"
  then have "LookupClass pf heap cl d None =
          (if failed_dex_cache_class_lookups cl + 1 > kMaxFailedDexCacheLookups
           then (case MoveImageClassesToClassTable pf heap
                        (cl\<lparr>failed_dex_cache_class_lookups := failed_dex_cache_class_lookups cl + 1\<rparr>) of
                   Inl a \<Rightarrow> Inl a
                 | Inr cl2 \<Rightarrow> Inr (None, cl2))
           else Inr (None, cl\<lparr>failed_dex_cache_class_lookups := failed_dex_cache_class_lookups cl + 1\<rparr>))"
    using LookupClass_image_miss by blast
  with a show "LookupClass pf heap cl d None
        = Inr (None, cl\<lparr>failed_dex_cache_class_lookups := failed_dex_cache_class_lookups cl + 1\<rparr>)"
    by simp
next
  let ?cl1 = "cl\<lparr>failed_dex_cache_class_lookups := failed_dex_cache_class_lookups cl + 1\<rparr>"
  assume a: "LookupClassFromTableLocked heap cl d None (Hash pf d) = None
        \<and> dex_cache_image_class_lookup_required cl \<and> image_dex_caches cl = Some dcs
        \<and> lookup_dex_caches dcs d = None
        \<and> failed_dex_cache_class_lookups cl + 1 > kMaxFailedDexCacheLookups
        \<and> LookupClass pf heap cl d None = Inr (result, cl')"
  then have "LookupClass pf heap cl d None =
          (case MoveImageClassesToClassTable pf heap ?cl1 of
                   Inl a \<Rightarrow> Inl a
                 | Inr cl2 \<Rightarrow> Inr (None, cl2))"
    using LookupClass_image_miss [of heap cl d pf dcs] by simp
  with a have m: "MoveImageClassesToClassTable pf heap ?cl1 = Inr cl'" and r: "result = None"
    by (auto split: sum.splits)
  have "dex_cache_image_class_lookup_required ?cl1" "image_dex_caches ?cl1 = Some dcs"
    using a by simp_all
  note res = MoveImageClassesToClassTable_result [OF m this]
  show "result = None" by (rule r)
  show "\<not> dex_cache_image_class_lookup_required cl'" using res by simp
  show "failed_dex_cache_class_lookups cl' = failed_dex_cache_class_lookups cl + 1"
    using res by simp
  show "set (class_table cl) \<subseteq> set (class_table cl')" using res by simp
  show "\<forall>c\<in>image_classes dcs. (Hash pf (descriptor (heap c)), c) \<in> set (class_table cl')"
    using res by simp
qed

lemma run_lookups_misses:
  assumes "class_table cl = []" "dex_cache_image_class_lookup_required cl"
    "image_dex_caches cl = Some dcs" "lookup_dex_caches dcs d = None"
    "failed_dex_cache_class_lookups cl + int n \<le> kMaxFailedDexCacheLookups"
  shows "run_lookups pf heap cl (replicate n (d, None) @ rest)
       = run_lookups pf heap
           (cl\<lparr>failed_dex_cache_class_lookups := failed_dex_cache_class_lookups cl + int n\<rparr>) rest"
  using assms
proof (induction n arbitrary: cl)
  case 0
  then show ?case by simp
next
  case (Suc n)
  let ?cl1 = "cl\<lparr>failed_dex_cache_class_lookups := failed_dex_cache_class_lookups cl + 1\<rparr>"
  have l: "LookupClassFromTableLocked heap cl d None (Hash pf d) = None"
    using Suc.prems(1) by (simp add: LookupClassFromTableLocked_def)
  have "LookupClass pf heap cl d None = Inr (None, ?cl1)"
    using LookupClass_image_miss [OF l Suc.prems(2,3,4)] Suc.prems(5) by simp
  then have "run_lookups pf heap cl (replicate (Suc n) (d, None) @ rest)
      = run_lookups pf heap ?cl1 (replicate n (d, None) @ rest)"
    by simp
  also have "\<dots> = run_lookups pf heap
      (?cl1\<lparr>failed_dex_cache_class_lookups := failed_dex_cache_class_lookups ?cl1 + int n\<rparr>) rest"
    using Suc.prems by (intro Suc.IH) simp_all
  finally show ?case by (simp add: add.assoc)
qed

lemmas example_image_simps = example_image_linker_def example_empty_linker_def
  example_Foo_heap_def example_Foo_def example_Base_def

theorem LookupClass_image_fallback_witness:
  "LookupClass example_platform example_Foo_heap example_image_linker ''LFoo;'' None
     = Inr (Some 1, example_image_linker\<lparr>class_table := [(Hash example_platform ''LFoo;'', 1)]\<rparr>)"
proof -
  have 1: "LookupClassFromTableLocked example_Foo_heap example_image_linker ''LFoo;'' None
      (Hash example_platform ''LFoo;'') = None
        \<and> dex_cache_image_class_lookup_required example_image_linker
        \<and> image_dex_caches example_image_linker = Some [[(''LFoo;'', Some 1)]]
        \<and> lookup_dex_caches [[(''LFoo;'', Some 1)]] ''LFoo;'' = Some 1"
    by (simp add: LookupClassFromTableLocked_def example_image_simps)
  note t = LookupClass_image_fallback [where heap = example_Foo_heap
      and cl = example_image_linker and d = "''LFoo;''" and k = 1
      and dcs = "[[(''LFoo;'', Some 1)]]", THEN conjunct2, THEN conjunct2, THEN conjunct1,
      THEN mp, OF 1]
  have 2: "class_loader (example_Foo_heap 1) = None" by (simp add: example_image_simps)
  from t [THEN conjunct1] t [THEN conjunct2, THEN conjunct2, THEN conjunct2, THEN mp, OF 2]
  show ?thesis by (simp add: with_class_def example_image_simps)
qed

text \<open>Claim C8 as stated speaks of consecutive fallback misses.  After 1000 misses and
  then one lookup that the image answers, the counter still stands at 1000 and the image
  lookup is still required; a single further miss moves the image classes.\<close>

theorem LookupClass_consecutive_counterexample:
  "run_lookups example_platform example_Foo_heap example_image_linker
     (replicate 1000 (''LMissing;'', None) @ [(''LFoo;'', None)])
     = Inr (example_image_linker\<lparr>class_table := [(Hash example_platform ''LFoo;'', 1)],
                                  failed_dex_cache_class_lookups := 1000\<rparr>)
   \<and> run_lookups example_platform example_Foo_heap example_image_linker
     (replicate 1000 (''LMissing;'', None) @ [(''LFoo;'', None), (''LMissing;'', None)])
     = Inr (example_image_linker\<lparr>class_table := [(Hash example_platform ''LFoo;'', 1)],
                                  failed_dex_cache_class_lookups := 1001,
                                  dex_cache_image_class_lookup_required := False\<rparr>)"
proof -
  let ?cl = "example_image_linker\<lparr>failed_dex_cache_class_lookups := 1000\<rparr>"
  have m: "run_lookups example_platform example_Foo_heap example_image_linker
       (replicate 1000 (''LMissing;'', None) @ rest)
     = run_lookups example_platform example_Foo_heap ?cl rest" for rest
    using run_lookups_misses [where cl = example_image_linker and n = 1000
        and dcs = "[[(''LFoo;'', Some 1)]]" and d = "''LMissing;''" and heap = example_Foo_heap
        and rest = rest]
    by (simp add: example_image_simps kMaxFailedDexCacheLookups_def)
  have h: "LookupClass example_platform example_Foo_heap ?cl ''LFoo;'' None
      = Inr (Some 1, ?cl\<lparr>class_table := [(Hash example_platform ''LFoo;'', 1)]\<rparr>)"
    by (simp add: LookupClass_def LookupClassFromTableLocked_def LookupClassFromImage_def
        InsertClass_def Let_def example_image_simps)
  have l: "LookupClass example_platform example_Foo_heap (?cl\<lparr>class_table := [(Hash example_platform ''LFoo;'', 1)]\<rparr>)
        ''LMissing;'' None
      = Inr (None, ?cl\<lparr>class_table := [(Hash example_platform ''LFoo;'', 1)],
                         failed_dex_cache_class_lookups := 1001,
                         dex_cache_image_class_lookup_required := False\<rparr>)"
    by (simp add: LookupClass_def LookupClassFromTableLocked_def LookupClassFromImage_def
        MoveImageClassesToClassTable_def kMaxFailedDexCacheLookups_def Let_def
        example_image_simps)
  show ?thesis
    unfolding m using h l by (simp add: example_image_simps)
qed

subsection \<open>\<^verbatim>\<open>LinkVirtualMethods\<close>: override or append\<close>

lemma find_map_list: "find P (map f xs) = map_option f (find (P \<circ> f) xs)"
  by (induction xs) simp_all

lemma find_upt_Suc:
  "find P [0..<Suc n] = (if P 0 then Some 0 else map_option Suc (find (P \<circ> Suc) [0..<n]))"
proof -
  have "[0..<Suc n] = 0 # map Suc [0..<n]"
    by (simp add: upt_conv_Cons map_Suc_upt del: upt_Suc)
  then show ?thesis
    by (simp add: find_map_list del: upt_Suc)
qed

lemma scan_vtable_find:
  "scan_vtable ca h m tbl k =
     (case find (\<lambda>j. overridable ca h m (tbl ! j)) [0..<length tbl] of
        None \<Rightarrow> Inr None
      | Some j \<Rightarrow>
          if IsFinal (method_at h (tbl ! j))
          then Inl (Exception_pending ''Ljava/lang/LinkageError;'')
          else Inr (Some (k + j)))"
proof (induction tbl arbitrary: k)
  case Nil
  show ?case by simp
next
  case (Cons s tbl)
  show ?case
  proof (cases "overridable ca h m s")
    case True
    then show ?thesis
      by (simp add: find_upt_Suc overridable_def del: upt_Suc)
  next
    case False
    then have "scan_vtable ca h m (s # tbl) k = scan_vtable ca h m tbl (k + 1)"
      by (auto simp: overridable_def)
    then show ?thesis
      using False
      by (simp add: Cons.IH find_upt_Suc comp_def option.case_eq_if option.map_sel
               del: upt_Suc split: option.splits)
  qed
qed

lemma method_at_SetMethodIndex_early:
  "method_at (SetMethodIndex h m i) x =
     (if x = m then (method_at h m)\<lparr>method_index := i mod 65536\<rparr> else method_at h x)"
  by (simp add: SetMethodIndex_def)

lemma free_allocations_SetMethodIndex [simp]:
  "free_allocations (SetMethodIndex h m i) = free_allocations h"
  by (simp add: SetMethodIndex_def)

lemma AllocArray_store:
  "AllocArray h = Inr h' \<Longrightarrow> method_at h' = method_at h"
  by (auto simp: AllocArray_def split: if_splits)

lemma link_virtual_method_first_match:
  "link_virtual_method ca m (vt, h) =
     (case first_accessible_match ca h m vt of
        Some j \<Rightarrow>
          if IsFinal (method_at h (vt ! j))
          then Inl (Exception_pending ''Ljava/lang/LinkageError;'')
          else Inr (vt[j := m], SetMethodIndex h m j)
      | None \<Rightarrow> Inr (vt @ [m], SetMethodIndex h m (length vt)))"
  by (simp add: link_virtual_method_def scan_vtable_find first_accessible_match_def
           split: option.splits)

lemma link_virtual_methods_append:
  "link_virtual_methods ca (xs @ ys) st =
     (case link_virtual_methods ca xs st of
        Inl e \<Rightarrow> Inl e
      | Inr st' \<Rightarrow> link_virtual_methods ca ys st')"
  by (induction xs arbitrary: st) (simp_all split: sum.splits)

lemma vtable_before_Suc:
  assumes "i < length (virtual_methods klass)"
    and "vtable_before ca klass svt h i = Inr st"
  shows "vtable_before ca klass svt h (Suc i)
           = link_virtual_method ca (virtual_methods klass ! i) st"
  using assms
  by (simp add: vtable_before_def take_Suc_conv_app_nth link_virtual_methods_append
           split: sum.splits)

lemma vtable_before_failure:
  assumes "i < length (virtual_methods klass)"
    and "vtable_before ca klass svt h i = Inr st"
    and "link_virtual_method ca (virtual_methods klass ! i) st = Inl e"
  shows "link_virtual_methods ca (virtual_methods klass) (svt, h) = Inl e"
proof -
  have "virtual_methods klass
          = take i (virtual_methods klass) @ virtual_methods klass ! i
              # drop (Suc i) (virtual_methods klass)"
    using assms(1) by (rule id_take_nth_drop)
  then have "link_virtual_methods ca (virtual_methods klass) (svt, h)
               = link_virtual_methods ca
                   (take i (virtual_methods klass) @ virtual_methods klass ! i
                      # drop (Suc i) (virtual_methods klass)) (svt, h)"
    by simp
  also have "\<dots> = Inl e"
    using assms(2,3) by (simp add: link_virtual_methods_append vtable_before_def)
  finally show ?thesis .
qed

lemma vtable_before_prefix:
  assumes "link_virtual_methods ca (virtual_methods klass) (svt, h) = Inr st"
  shows "\<exists>st'. vtable_before ca klass svt h i = Inr st'"
proof -
  have "virtual_methods klass = take i (virtual_methods klass) @ drop i (virtual_methods klass)"
    by simp
  then have "link_virtual_methods ca
               (take i (virtual_methods klass) @ drop i (virtual_methods klass)) (svt, h) = Inr st"
    using assms by simp
  then have "(case link_virtual_methods ca (take i (virtual_methods klass)) (svt, h) of
                Inl e \<Rightarrow> Inl e
              | Inr st' \<Rightarrow> link_virtual_methods ca (drop i (virtual_methods klass)) st') = Inr st"
    by (simp only: link_virtual_methods_append)
  then show ?thesis
    by (cases "link_virtual_methods ca (take i (virtual_methods klass)) (svt, h)")
       (simp_all add: vtable_before_def)
qed

lemma LinkVirtualMethods_super:
  assumes "super_class klass = Some super" and "vtable (heap super) = Some svt"
    and "AllocArray h = Inr h1"
  shows "LinkVirtualMethods ca is_object heap klass h =
     (case link_virtual_methods ca (virtual_methods klass) (svt, h1) of
        Inl e \<Rightarrow> Inl e
      | Inr (vt, h2) \<Rightarrow>
          if \<not> length vt < 65536 then Inl (Exception_pending ''Ljava/lang/ClassFormatError;'')
          else (case (if length vt < length (virtual_methods klass) + length svt
                      then AllocArray h2 else Inr h2) of
                  Inl e \<Rightarrow> Inl e
                | Inr h3 \<Rightarrow> Inr (klass\<lparr>vtable := Some vt\<rparr>, h3)))"
  using assms by (simp add: LinkVirtualMethods_def Let_def split: sum.splits prod.splits)

lemma example_store_method_at [simp]:
  "method_at example_store 0 = example_method ''f'' 10 0 0 1"
  "method_at example_store 1 = example_method ''f'' 11 1 1 2"
  "method_at example_store (Suc 0) = example_method ''f'' 11 1 1 2"
  "method_at example_store 2 = example_method ''f'' 12 1 0 3"
  "method_at example_store 3 = example_method ''g'' 12 1 0 4"
  "method_at example_store 4 = example_method ''k'' 12 1 0 5"
  "method_at example_store 5 = example_method ''f'' 13 0x401 0 8"
  "method_at example_store 6 = example_method ''g'' 13 0x401 1 13"
  "method_at example_store 7 = example_method ''k'' 13 0x401 2 17"
  "method_at example_store 8 = example_method ''h'' 13 0x401 3 6"
  by (simp_all add: example_store_def example_methods_def)

lemma example_store_sel [simp]:
  "next_address example_store = 9" "free_allocations example_store = 20"
  by (simp_all add: example_store_def)

lemma example_method_sel [simp]:
  "method_name (example_method n c fl i d) = n"
  "method_signature (example_method n c fl i d) = ''()V''"
  "declaring_class (example_method n c fl i d) = c"
  "method_access_flags (example_method n c fl i d) = fl"
  "method_index (example_method n c fl i d) = i"
  "dex_method_index (example_method n c fl i d) = d"
  by (simp_all add: example_method_def)

text \<open>
  Claim C1, as amended.  \<^verbatim>\<open>LinkVirtualMethods\<close> on a class with a superclass, once the copy
  of the vtable of the superclass is allocated.  The loop over the virtual methods that the
  class declares starts from the inherited vtable and takes the methods in their order.
  When it comes to the method \<open>m\<close>, with the table \<open>vt\<close> as it stands (the inherited slots,
  some of them overridden, and the slots appended for the methods before \<open>m\<close>), it looks for
  the \<^emph>\<open>lowest\<close> slot \<open>j\<close> of \<open>vt\<close> with a method of the name and signature of \<open>m\<close> that the
  class may access: the table is scanned from slot 0 upward, and a match that the class may
  not access is passed over.  With such a slot, \<^verbatim>\<open>LinkVirtualMethods\<close> fails with a
  \<^verbatim>\<open>LinkageError\<close> if its method is final, and otherwise \<open>m\<close> is put into slot \<open>j\<close> in place and
  gets the method index \<open>j\<close>.  Without one, \<open>m\<close> is appended in a new slot at the end of the
  table and gets its index.  When \<^verbatim>\<open>LinkVirtualMethods\<close> succeeds, the loop has come to
  every method and to the end of the methods, and the vtable of the class is the table that
  it has built.
\<close>

theorem LinkVirtualMethods_override_or_append:
  assumes "super_class klass = Some super" and "vtable (heap super) = Some super_vtable"
    and "AllocArray h = Inr h1"
  shows "vtable_before CanAccessMember klass super_vtable h1 0 = Inr (super_vtable, h1)
       \<and> (\<forall>i vt h'.
            i < length (virtual_methods klass)
            \<and> vtable_before CanAccessMember klass super_vtable h1 i = Inr (vt, h') \<longrightarrow>
            (case first_accessible_match CanAccessMember h' (virtual_methods klass ! i) vt of
               Some j \<Rightarrow>
                 if IsFinal (method_at h' (vt ! j))
                 then LinkVirtualMethods CanAccessMember is_object heap klass h
                        = Inl (Exception_pending ''Ljava/lang/LinkageError;'')
                 else vtable_before CanAccessMember klass super_vtable h1 (Suc i)
                        = Inr (vt[j := virtual_methods klass ! i],
                               SetMethodIndex h' (virtual_methods klass ! i) j)
             | None \<Rightarrow>
                 vtable_before CanAccessMember klass super_vtable h1 (Suc i)
                   = Inr (vt @ [virtual_methods klass ! i],
                          SetMethodIndex h' (virtual_methods klass ! i) (length vt))))
       \<and> (\<forall>klass' h''.
            LinkVirtualMethods CanAccessMember is_object heap klass h = Inr (klass', h'') \<longrightarrow>
            (\<exists>vt h2.
               vtable_before CanAccessMember klass super_vtable h1 (length (virtual_methods klass))
                 = Inr (vt, h2)
               \<and> klass' = klass\<lparr>vtable := Some vt\<rparr> \<and> method_at h'' = method_at h2)
            \<and> (\<forall>i. \<exists>st. vtable_before CanAccessMember klass super_vtable h1 i = Inr st))"
proof (intro conjI allI impI)
  show "vtable_before CanAccessMember klass super_vtable h1 0 = Inr (super_vtable, h1)"
    by (simp add: vtable_before_def)
next
  fix i vt h'
  assume a: "i < length (virtual_methods klass)
             \<and> vtable_before CanAccessMember klass super_vtable h1 i = Inr (vt, h')"
  let ?m = "virtual_methods klass ! i"
  note suc = vtable_before_Suc [OF a [THEN conjunct1] a [THEN conjunct2]]
  note step = link_virtual_method_first_match [of CanAccessMember ?m vt h']
  show "case first_accessible_match CanAccessMember h' ?m vt of
          Some j \<Rightarrow>
            if IsFinal (method_at h' (vt ! j))
            then LinkVirtualMethods CanAccessMember is_object heap klass h
                   = Inl (Exception_pending ''Ljava/lang/LinkageError;'')
            else vtable_before CanAccessMember klass super_vtable h1 (Suc i)
                   = Inr (vt[j := ?m], SetMethodIndex h' ?m j)
        | None \<Rightarrow>
            vtable_before CanAccessMember klass super_vtable h1 (Suc i)
              = Inr (vt @ [?m], SetMethodIndex h' ?m (length vt))"
  proof (cases "first_accessible_match CanAccessMember h' ?m vt")
    case None
    then show ?thesis using suc step by simp
  next
    case (Some j)
    show ?thesis
    proof (cases "IsFinal (method_at h' (vt ! j))")
      case True
      then have "link_virtual_method CanAccessMember ?m (vt, h')
                   = Inl (Exception_pending ''Ljava/lang/LinkageError;'')"
        using step Some by simp
      from vtable_before_failure [OF a [THEN conjunct1] a [THEN conjunct2] this]
      have "LinkVirtualMethods CanAccessMember is_object heap klass h
              = Inl (Exception_pending ''Ljava/lang/LinkageError;'')"
        by (simp add: LinkVirtualMethods_super [where klass = klass and heap = heap and h = h
              and ca = CanAccessMember and is_object = is_object, OF assms])
      then show ?thesis using Some True by simp
    next
      case False
      then show ?thesis using suc step Some by simp
    qed
  qed
next
  fix klass' h''
  assume r: "LinkVirtualMethods CanAccessMember is_object heap klass h = Inr (klass', h'')"
  then obtain vt h2 where
    l: "link_virtual_methods CanAccessMember (virtual_methods klass) (super_vtable, h1)
          = Inr (vt, h2)"
    and k: "klass' = klass\<lparr>vtable := Some vt\<rparr>"
    and s: "h'' = h2 \<or> AllocArray h2 = Inr h''"
    unfolding LinkVirtualMethods_super [where klass = klass and heap = heap and h = h
        and ca = CanAccessMember and is_object = is_object, OF assms]
    by (auto split: sum.splits prod.splits if_splits)
  have "method_at h'' = method_at h2"
    using s AllocArray_store [of h2 h''] by auto
  then show "\<exists>vt h2.
               vtable_before CanAccessMember klass super_vtable h1 (length (virtual_methods klass))
                 = Inr (vt, h2)
               \<and> klass' = klass\<lparr>vtable := Some vt\<rparr> \<and> method_at h'' = method_at h2"
    using l k by (simp add: vtable_before_def)
  show "\<exists>st. vtable_before CanAccessMember klass super_vtable h1 i = Inr st" for i
    by (rule vtable_before_prefix [OF l])
qed

lemmas example_vtable_simps = example_C_def example_B_def example_Base_def
  example_method_heap_def example_final_store_def example_duplicate_store_def

text \<open>The class \<^verbatim>\<open>C\<close>, which may access public methods only, and the inherited vtable
  \<^verbatim>\<open>[A.f, B.f]\<close>: for its first method \<^verbatim>\<open>C.f\<close>, the slot of \<^verbatim>\<open>A.f\<close> is passed over and slot 1 is
  overridden; with \<^verbatim>\<open>B.f\<close> final, \<^verbatim>\<open>LinkVirtualMethods\<close> fails with a \<^verbatim>\<open>LinkageError\<close>.\<close>

theorem LinkVirtualMethods_override_or_append_witness:
  "vtable_before example_CanAccessMember example_C [0, 1]
     (example_store\<lparr>free_allocations := 19\<rparr>) 1
     = Inr ([0, 2], SetMethodIndex (example_store\<lparr>free_allocations := 19\<rparr>) 2 1)
   \<and> LinkVirtualMethods example_CanAccessMember False example_method_heap example_C
       example_final_store
     = Inl (Exception_pending ''Ljava/lang/LinkageError;'')"
proof -
  have sup: "super_class example_C = Some 11"
    and svt: "vtable (example_method_heap 11) = Some [0, 1]"
    and ms: "virtual_methods example_C = [2, 3, 4]"
    by (simp_all add: example_vtable_simps)
  have a: "AllocArray example_store = Inr (example_store\<lparr>free_allocations := 19\<rparr>)"
    by (simp add: AllocArray_def example_store_def)
  have af: "AllocArray example_final_store = Inr (example_final_store\<lparr>free_allocations := 19\<rparr>)"
    by (simp add: AllocArray_def example_store_def example_final_store_def)
  have m: "first_accessible_match example_CanAccessMember
             (example_store\<lparr>free_allocations := 19\<rparr>) 2 [0, 1] = Some 1"
    by (simp add: first_accessible_match_def overridable_def HasSameNameAndSignature_def
          example_CanAccessMember_def kAccPublic_def upt_conv_Cons)
  have nf: "\<not> IsFinal (method_at (example_store\<lparr>free_allocations := 19\<rparr>) ([0, 1] ! 1))"
    by (simp add: IsFinal_def kAccFinal_def)
  have mf: "first_accessible_match example_CanAccessMember
              (example_final_store\<lparr>free_allocations := 19\<rparr>) 2 [0, 1] = Some 1"
    by (simp add: first_accessible_match_def overridable_def HasSameNameAndSignature_def
          example_CanAccessMember_def kAccPublic_def upt_conv_Cons example_final_store_def)
  have f: "IsFinal (method_at (example_final_store\<lparr>free_allocations := 19\<rparr>) ([0, 1] ! 1))"
    by (simp add: IsFinal_def kAccFinal_def example_final_store_def)
  note t = LinkVirtualMethods_override_or_append
             [where klass = example_C and heap = example_method_heap
                and CanAccessMember = example_CanAccessMember and is_object = False,
              OF sup svt a]
  note u = LinkVirtualMethods_override_or_append
             [where klass = example_C and heap = example_method_heap
                and CanAccessMember = example_CanAccessMember and is_object = False,
              OF sup svt af]
  have "vtable_before example_CanAccessMember example_C [0, 1]
          (example_store\<lparr>free_allocations := 19\<rparr>) 1
        = Inr ([0, 2], SetMethodIndex (example_store\<lparr>free_allocations := 19\<rparr>) 2 1)"
    using t [THEN conjunct2, THEN conjunct1, rule_format, of 0 "[0, 1]"
               "example_store\<lparr>free_allocations := 19\<rparr>"]
          t [THEN conjunct1] m nf
    by (simp add: ms)
  moreover have "LinkVirtualMethods example_CanAccessMember False example_method_heap example_C
                   example_final_store
                 = Inl (Exception_pending ''Ljava/lang/LinkageError;'')"
    using u [THEN conjunct2, THEN conjunct1, rule_format, of 0 "[0, 1]"
               "example_final_store\<lparr>free_allocations := 19\<rparr>"]
          u [THEN conjunct1] mf f
    by (simp add: ms)
  ultimately show ?thesis by simp
qed

text \<open>Claim C1 as stated has the inherited vtable scanned from the end.  For a class that may
  access both \<^verbatim>\<open>A.f\<close> and \<^verbatim>\<open>B.f\<close> (a class of the package of \<^verbatim>\<open>A\<close>), the scan of the code stops
  at slot 0: \<^verbatim>\<open>C.f\<close> replaces \<^verbatim>\<open>A.f\<close> and the vtable of \<^verbatim>\<open>C\<close> is \<^verbatim>\<open>[C.f, B.f, C.g, C.k]\<close>, while
  a scan of \<^verbatim>\<open>[A.f, B.f]\<close> from its end finds slot 1.  And the scan is over the table as it
  stands, not over the inherited vtable alone: for a class with two methods \<^verbatim>\<open>g\<close>, which have
  no match in \<^verbatim>\<open>[A.f, B.f]\<close>, the second one is not appended but replaces the first one in the
  slot that was appended for it, and the vtable is \<^verbatim>\<open>[A.f, C.f, g]\<close>.\<close>

theorem LinkVirtualMethods_scan_direction_counterexample:
  "linked_vtable
     (LinkVirtualMethods example_package_access False example_method_heap example_C example_store)
     = Some [2, 1, 3, 4]
   \<and> last_accessible_match example_package_access example_store 2 [0, 1] = Some 1
   \<and> linked_vtable
       (LinkVirtualMethods example_CanAccessMember False example_method_heap example_C
          example_duplicate_store)
     = Some [0, 2, 4]
   \<and> first_accessible_match example_CanAccessMember example_duplicate_store 4 [0, 1] = None"
  by (simp add: LinkVirtualMethods_def link_virtual_method_def last_accessible_match_def
        first_accessible_match_def overridable_def HasSameNameAndSignature_def IsFinal_def
        kAccFinal_def kAccPublic_def example_CanAccessMember_def example_package_access_def
        linked_vtable_def AllocArray_def Let_def method_at_SetMethodIndex_early upt_conv_Cons
        example_vtable_simps)

subsection \<open>\<^verbatim>\<open>LinkVirtualMethods\<close>: the slot of a method is its index\<close>

lemma method_at_SetMethodIndex:
  "method_at (SetMethodIndex h m i) x =
     (if x = m then (method_at h m)\<lparr>method_index := i mod 65536\<rparr> else method_at h x)"
  by (simp add: SetMethodIndex_def)

lemma next_address_SetMethodIndex [simp]:
  "next_address (SetMethodIndex h m i) = next_address h"
  by (simp add: SetMethodIndex_def)

lemma AllocArray_Inr:
  assumes "AllocArray h = Inr h'"
  shows "method_at h' = method_at h" and "next_address h' = next_address h"
  using assms by (auto simp: AllocArray_def split: if_splits)

lemma vtable_indexed_iff:
  "vtable_indexed h vt \<longleftrightarrow> (\<forall>i<length vt. method_index (method_at h (vt ! i)) = i mod 65536)"
  by (auto simp: vtable_indexed_def list_all_iff)

lemma vtable_indexed_cong:
  assumes "vtable_indexed h vt" and "\<And>m. m \<in> set vt \<Longrightarrow> method_at h' m = method_at h m"
  shows "vtable_indexed h' vt"
  using assms by (simp add: vtable_indexed_iff)

lemma methods_allocated_iff:
  "methods_allocated h ms \<longleftrightarrow> (\<forall>m\<in>set ms. m < next_address h)"
  by (simp add: methods_allocated_def list_all_iff)

lemma scan_vtable_bound:
  "scan_vtable ca h m tbl k = Inr (Some j) \<Longrightarrow> k \<le> j \<and> j < k + length tbl"
proof (induction tbl arbitrary: k)
  case Nil
  then show ?case by simp
next
  case (Cons s tbl)
  show ?case
  proof (cases "scan_vtable ca h m (s # tbl) k = scan_vtable ca h m tbl (k + 1)")
    case True
    with Cons.prems have "scan_vtable ca h m tbl (k + 1) = Inr (Some j)" by simp
    from Cons.IH [OF this] show ?thesis by simp
  next
    case False
    with Cons.prems have "j = k" by (auto split: if_splits)
    then show ?thesis by simp
  qed
qed

lemma link_virtual_method_indexed:
  assumes step: "link_virtual_method ca m (vt, h) = Inr (vt', h')"
    and inv: "vtable_indexed h vt"
    and fresh: "m \<notin> set vt"
  shows "vtable_indexed h' vt'" and "set vt' \<subseteq> insert m (set vt)"
    and "next_address h' = next_address h"
proof -
  consider (override) j where "scan_vtable ca h m vt 0 = Inr (Some j)"
      "vt' = vt[j := m]" "h' = SetMethodIndex h m j"
    | (append) "scan_vtable ca h m vt 0 = Inr None"
      "vt' = vt @ [m]" "h' = SetMethodIndex h m (length vt)"
    using step by (auto simp: link_virtual_method_def split: sum.splits option.splits)
  then have "vtable_indexed h' vt' \<and> set vt' \<subseteq> insert m (set vt)
               \<and> next_address h' = next_address h"
  proof cases
    case override
    from scan_vtable_bound [OF override(1)] have j: "j < length vt" by simp
    have "method_index (method_at h' (vt' ! i)) = i mod 65536" if "i < length vt'" for i
    proof (cases "i = j")
      case True
      then show ?thesis using j override by (simp add: method_at_SetMethodIndex)
    next
      case False
      moreover have "vt ! i \<noteq> m" using fresh that override(2) by (auto simp: in_set_conv_nth)
      ultimately show ?thesis
        using that inv override by (simp add: method_at_SetMethodIndex vtable_indexed_iff)
    qed
    moreover have "set vt' \<subseteq> insert m (set vt)"
      using override(2) set_update_subset_insert by fastforce
    ultimately show ?thesis using override(3) by (simp add: vtable_indexed_iff)
  next
    case append
    have "method_index (method_at h' (vt' ! i)) = i mod 65536" if "i < length vt'" for i
    proof (cases "i = length vt")
      case True
      then show ?thesis using append by (simp add: method_at_SetMethodIndex)
    next
      case False
      then have i: "i < length vt" using that append(2) by simp
      then have "vt ! i \<noteq> m" using fresh by (auto simp: in_set_conv_nth)
      then show ?thesis
        using i inv append by (simp add: method_at_SetMethodIndex vtable_indexed_iff nth_append)
    qed
    then show ?thesis using append by (auto simp: vtable_indexed_iff)
  qed
  then show "vtable_indexed h' vt'" and "set vt' \<subseteq> insert m (set vt)"
    and "next_address h' = next_address h"
    by simp_all
qed

lemma link_virtual_methods_indexed:
  assumes "link_virtual_methods ca ms (vt, h) = Inr (vt', h')"
    and "vtable_indexed h vt"
    and "distinct ms"
    and "set vt \<inter> set ms = {}"
  shows "vtable_indexed h' vt' \<and> set vt' \<subseteq> set vt \<union> set ms \<and> next_address h' = next_address h"
  using assms
proof (induction ms arbitrary: vt h)
  case Nil
  then show ?case by simp
next
  case (Cons m ms)
  from Cons.prems(1) obtain vt1 h1 where
    step: "link_virtual_method ca m (vt, h) = Inr (vt1, h1)" and
    rest: "link_virtual_methods ca ms (vt1, h1) = Inr (vt', h')"
    by (auto split: sum.splits)
  have fresh: "m \<notin> set vt" using Cons.prems(4) by auto
  note s = link_virtual_method_indexed [OF step Cons.prems(2) fresh]
  have "distinct ms" using Cons.prems(3) by simp
  moreover have "set vt1 \<inter> set ms = {}"
    using s(2) Cons.prems(3,4) by auto
  ultimately have "vtable_indexed h' vt' \<and> set vt' \<subseteq> set vt1 \<union> set ms
                     \<and> next_address h' = next_address h1"
    using Cons.IH [OF rest s(1)] by simp
  then show ?case using s(2,3) by auto
qed

lemma set_root_indices_other:
  "x \<notin> set ms \<Longrightarrow> method_at (set_root_indices ms k h) x = method_at h x"
  by (induction ms arbitrary: k h) (simp_all add: method_at_SetMethodIndex)

lemma next_address_set_root_indices [simp]:
  "next_address (set_root_indices ms k h) = next_address h"
  by (induction ms arbitrary: k h) simp_all

lemma set_root_indices_index:
  "distinct ms \<Longrightarrow> i < length ms \<Longrightarrow>
     method_index (method_at (set_root_indices ms k h) (ms ! i)) = (k + i) mod 65536"
proof (induction ms arbitrary: k h i)
  case Nil
  then show ?case by simp
next
  case (Cons m ms)
  show ?case
  proof (cases i)
    case 0
    then show ?thesis
      using Cons.prems by (simp add: set_root_indices_other method_at_SetMethodIndex)
  next
    case (Suc n)
    then show ?thesis
      using Cons.prems Cons.IH [of n "k + 1"] by simp
  qed
qed

text \<open>\<^verbatim>\<open>LinkVirtualMethods\<close>, when it succeeds, leaves a vtable of less than \<open>2\<^sup>1\<^sup>6\<close> methods of the
  class and of the inherited vtable, each in the slot of its index.\<close>

lemma LinkVirtualMethods_indexed:
  assumes ok: "LinkVirtualMethods ca is_object heap klass h = Inr (klass1, h1)"
    and inh: "vtable_indexed h (inherited_vtable heap klass)"
    and dist: "distinct (virtual_methods klass)"
    and disj: "set (inherited_vtable heap klass) \<inter> set (virtual_methods klass) = {}"
  shows "\<exists>vt. klass1 = klass\<lparr>vtable := Some vt\<rparr> \<and> vtable_indexed h1 vt \<and> length vt < 65536
           \<and> set vt \<subseteq> set (inherited_vtable heap klass) \<union> set (virtual_methods klass)
           \<and> next_address h1 = next_address h"
proof (cases "super_class klass")
  case None
  from ok None obtain h0 where a: "AllocArray h = Inr h0"
    and k: "klass1 = klass\<lparr>vtable := Some (virtual_methods klass)\<rparr>"
    and h1: "h1 = set_root_indices (virtual_methods klass) 0 h0"
    and len: "length (virtual_methods klass) < 65536"
    by (auto simp: LinkVirtualMethods_def Let_def split: if_splits sum.splits)
  have "vtable_indexed h1 (virtual_methods klass)"
    using set_root_indices_index [OF dist, of _ 0 h0] h1 by (simp add: vtable_indexed_iff)
  then show ?thesis using k len h1 AllocArray_Inr(2) [OF a] by auto
next
  case (Some super)
  from ok Some obtain svt where sv: "vtable (heap super) = Some svt"
    by (auto simp: LinkVirtualMethods_def split: option.splits)
  have iv: "inherited_vtable heap klass = svt"
    using Some sv by (simp add: inherited_vtable_def)
  from ok Some sv obtain h0 vt h2 where a: "AllocArray h = Inr h0"
    and loop: "link_virtual_methods ca (virtual_methods klass) (svt, h0) = Inr (vt, h2)"
    and len: "length vt < 65536"
    and k: "klass1 = klass\<lparr>vtable := Some vt\<rparr>"
    and shrink: "h1 = h2 \<or> AllocArray h2 = Inr h1"
    by (auto simp: LinkVirtualMethods_def Let_def split: if_splits sum.splits prod.splits)
  have "vtable_indexed h0 svt"
    using inh iv AllocArray_Inr(1) [OF a] by (simp add: vtable_indexed_iff)
  from link_virtual_methods_indexed [OF loop this dist] disj iv
  have r: "vtable_indexed h2 vt" "set vt \<subseteq> set svt \<union> set (virtual_methods klass)"
    "next_address h2 = next_address h0"
    by auto
  have "method_at h1 = method_at h2 \<and> next_address h1 = next_address h2"
    using shrink AllocArray_Inr [of h2 h1] by auto
  then show ?thesis
    using r k len iv AllocArray_Inr(2) [OF a] by (auto simp: vtable_indexed_iff)
qed

subsection \<open>\<^verbatim>\<open>LinkInterfaceMethods\<close>: the interface method table\<close>

lemma store_extends_refl: "store_extends h h"
  by (simp add: store_extends_def)

lemma store_extends_AllocArray:
  assumes "store_extends h0 h" and "AllocArray h = Inr h'"
  shows "store_extends h0 h'"
  using assms AllocArray_Inr [OF assms(2)] by (simp add: store_extends_def)

lemma Clone_Inr:
  assumes "Clone h m = Inr (a, h')"
  shows "a = next_address h" and "next_address h' = next_address h + 1"
    and "\<And>x. x \<noteq> next_address h \<Longrightarrow> method_at h' x = method_at h x"
  using assms by (auto simp: Clone_def split: if_splits)

lemma store_extends_Clone:
  assumes "store_extends h0 h" and "Clone h m = Inr (a, h')"
  shows "store_extends h0 h'"
  using assms(1) Clone_Inr(2,3) [OF assms(2)] by (auto simp: store_extends_def)

lemma find_vtable_method_stable:
  assumes "store_extends h0 h" and "im < next_address h0"
    and "\<forall>m\<in>set vt. m < next_address h0"
  shows "find_vtable_method h vt im = find_vtable_method h0 vt im"
  unfolding find_vtable_method_def
  using assms by (intro find_cong) (auto simp: store_extends_def)

lemma imt_writers_Cons:
  "imt_writers rt h vt (im # ims) = imt_writers rt h vt [im] @ imt_writers rt h vt ims"
  by (simp add: imt_writers_def List.map_filter_def)

lemma imt_writers_append:
  "imt_writers rt h vt (xs @ ys) = imt_writers rt h vt xs @ imt_writers rt h vt ys"
  by (simp add: imt_writers_def List.map_filter_def)

lemma imt_writers_Nil [simp]: "imt_writers rt h vt [] = []"
  by (simp add: imt_writers_def List.map_filter_def)

lemma imt_writers_single:
  "imt_writers rt h vt [im] =
     (case find_vtable_method h vt im of
        None \<Rightarrow> []
      | Some vm \<Rightarrow> [(unat (dex_method_index (method_at h im)) mod kImtSize rt, vm)])"
  by (simp add: imt_writers_def List.map_filter_def split: option.splits)

lemma imt_writers_slot:
  assumes "0 < kImtSize rt" and "w \<in> set (imt_writers rt h vt ims)"
  shows "fst w < kImtSize rt"
  using assms by (auto simp: imt_writers_def List.map_filter_def)

lemma link_interface_method_step:
  assumes ok: "link_state_ok rt h0 st" and pos: "0 < kImtSize rt"
    and im: "im < next_address h0" and vt: "\<forall>m\<in>set vt. m < next_address h0"
    and step: "link_interface_method rt vt im st = Inr (st', entry)"
  shows "link_state_ok rt h0 st' \<and>
         ls_imtable st' = foldl (imt_install rt) (ls_imtable st) (imt_writers rt h0 vt [im])"
proof -
  have ext: "store_extends h0 (ls_heap st)" using ok by (simp add: link_state_ok_def)
  have fv: "find_vtable_method (ls_heap st) vt im = find_vtable_method h0 vt im"
    by (rule find_vtable_method_stable [OF ext im vt])
  have at: "method_at (ls_heap st) im = method_at h0 im"
    using ext im by (simp add: store_extends_def)
  show ?thesis
  proof (cases "find_vtable_method h0 vt im")
    case (Some vm)
    define idx where "idx = unat (dex_method_index (method_at h0 im)) mod kImtSize rt"
    have idx: "idx < length (ls_imtable st)"
      using ok pos by (simp add: idx_def link_state_ok_def)
    have w: "imt_writers rt h0 vt [im] = [(idx, vm)]"
      using Some by (simp add: imt_writers_single idx_def)
    show ?thesis
    proof (cases "ls_imtable st ! idx = None")
      case True
      with step Some fv at have st': "st' = st\<lparr>ls_imtable := (ls_imtable st)[idx := Some vm],
                                   ls_imtable_changed := True\<rparr>"
        by (auto simp: link_interface_method_def Let_def idx_def split: if_splits)
      have "Some vm \<in> set ((ls_imtable st)[idx := Some vm])"
        using idx by (simp add: set_update_memI)
      then have "\<exists>entry\<in>set ((ls_imtable st)[idx := Some vm]). entry \<noteq> None" by blast
      moreover have "imt_install rt (ls_imtable st) (idx, vm) = (ls_imtable st)[idx := Some vm]"
        using True by (simp add: imt_install_def)
      ultimately show ?thesis
        using ok st' by (simp add: link_state_ok_def w)
    next
      case False
      with step Some fv at have st':
        "st' = st\<lparr>ls_imtable := (ls_imtable st)[idx := Some (imt_conflict_method rt)]\<rparr>"
        by (auto simp: link_interface_method_def Let_def idx_def split: if_splits)
      have "ls_imtable st ! idx \<in> set (ls_imtable st)" using idx by simp
      then have ch: "ls_imtable_changed st" using ok False by (auto simp: link_state_ok_def)
      have "Some (imt_conflict_method rt)
              \<in> set ((ls_imtable st)[idx := Some (imt_conflict_method rt)])"
        using idx by (simp add: set_update_memI)
      then have "\<exists>entry\<in>set ((ls_imtable st)[idx := Some (imt_conflict_method rt)]).
                   entry \<noteq> None" by blast
      moreover have "imt_install rt (ls_imtable st) (idx, vm)
                       = (ls_imtable st)[idx := Some (imt_conflict_method rt)]"
        using False by (auto simp: imt_install_def)
      ultimately show ?thesis
        using ok st' ch by (simp add: link_state_ok_def w)
    qed
  next
    case None
    then have w: "imt_writers rt h0 vt [im] = []" by (simp add: imt_writers_single)
    show ?thesis
    proof (cases "find (\<lambda>mir_method. HasSameNameAndSignature (method_at (ls_heap st) im)
                          (method_at (ls_heap st) mir_method)) (ls_miranda_list st)")
      case (Some mir)
      with step None fv have "st' = st"
        by (simp add: link_interface_method_def Let_def)
      then show ?thesis using ok w by simp
    next
      case no_miranda: None
      with step None fv obtain a h' where
        c: "Clone (ls_heap st) im = Inr (a, h')" and
        st': "st' = st\<lparr>ls_heap := h', ls_miranda_list := ls_miranda_list st @ [a]\<rparr>"
        by (auto simp: link_interface_method_def Let_def split: sum.splits)
      note cl = Clone_Inr [OF c]
      have "store_extends h0 h'" by (rule store_extends_Clone [OF ext c])
      moreover have "a \<notin> set (ls_miranda_list st)"
        using ok cl(1) by (auto simp: link_state_ok_def)
      moreover have "next_address h0 \<le> a"
        using ext cl(1) by (simp add: store_extends_def)
      ultimately show ?thesis
        using ok st' cl(1,2) w by (auto simp: link_state_ok_def)
    qed
  qed
qed

lemma link_interface_method_array_loop:
  assumes "link_state_ok rt h0 st" and "0 < kImtSize rt"
    and "\<forall>m\<in>set ims. m < next_address h0" and "\<forall>m\<in>set vt. m < next_address h0"
    and "link_interface_method_array rt vt ims st = Inr (st', entries)"
  shows "link_state_ok rt h0 st' \<and>
         ls_imtable st' = foldl (imt_install rt) (ls_imtable st) (imt_writers rt h0 vt ims)"
  using assms
proof (induction ims arbitrary: st entries)
  case Nil
  then show ?case by simp
next
  case (Cons im ims)
  from Cons.prems(5) obtain st1 e es where
    step: "link_interface_method rt vt im st = Inr (st1, e)" and
    rest: "link_interface_method_array rt vt ims st1 = Inr (st', es)"
    by (auto split: sum.splits)
  have im: "im < next_address h0" using Cons.prems(3) by simp
  note s = link_interface_method_step [OF Cons.prems(1,2) im Cons.prems(4) step]
  have "\<forall>m\<in>set ims. m < next_address h0" using Cons.prems(3) by simp
  from Cons.IH [OF _ Cons.prems(2) this Cons.prems(4) rest] s
  have "link_state_ok rt h0 st' \<and>
        ls_imtable st' = foldl (imt_install rt) (ls_imtable st1) (imt_writers rt h0 vt ims)"
    by simp
  then show ?case
    using s by (simp add: imt_writers_Cons [of rt h0 vt im ims])
qed

lemma link_state_ok_AllocArray:
  assumes "link_state_ok rt h0 st" and "AllocArray (ls_heap st) = Inr h1"
  shows "link_state_ok rt h0 (st\<lparr>ls_heap := h1\<rparr>)"
  using assms store_extends_AllocArray [of h0 "ls_heap st" h1] AllocArray_Inr(2) [OF assms(2)]
  by (simp add: link_state_ok_def)

lemma link_interfaces_loop:
  assumes "link_state_ok rt h0 st" and "0 < kImtSize rt"
    and "\<forall>m\<in>set (concat (map (\<lambda>i. virtual_methods (heap i)) ifaces)). m < next_address h0"
    and "\<forall>m\<in>set vt. m < next_address h0"
    and "link_interfaces rt heap (Some vt) ifaces st = Inr (st', entries)"
  shows "link_state_ok rt h0 st' \<and>
         ls_imtable st' =
           foldl (imt_install rt) (ls_imtable st)
             (imt_writers rt h0 vt (concat (map (\<lambda>i. virtual_methods (heap i)) ifaces))) \<and>
         map fst entries = ifaces"
  using assms
proof (induction ifaces arbitrary: st entries)
  case Nil
  then show ?case by auto
next
  case (Cons i ifaces)
  have rest_alloc:
    "\<forall>m\<in>set (concat (map (\<lambda>i. virtual_methods (heap i)) ifaces)). m < next_address h0"
    using Cons.prems(3) by simp
  show ?case
  proof (cases "virtual_methods (heap i) = []")
    case True
    with Cons.prems(5) obtain es where
      rest: "link_interfaces rt heap (Some vt) ifaces st = Inr (st', es)" and
      e: "entries = (i, None) # es"
      by (auto split: sum.splits)
    from Cons.IH [OF Cons.prems(1,2) rest_alloc Cons.prems(4) rest] e True
    show ?thesis by simp
  next
    case False
    with Cons.prems(5) obtain h1 st1 arr es where
      a: "AllocArray (ls_heap st) = Inr h1" and
      arr: "link_interface_method_array rt vt (virtual_methods (heap i)) (st\<lparr>ls_heap := h1\<rparr>)
              = Inr (st1, arr)" and
      rest: "link_interfaces rt heap (Some vt) ifaces st1 = Inr (st', es)" and
      e: "entries = (i, Some arr) # es"
      by (auto split: sum.splits)
    have ims: "\<forall>m\<in>set (virtual_methods (heap i)). m < next_address h0"
      using Cons.prems(3) by simp
    note s = link_interface_method_array_loop
               [OF link_state_ok_AllocArray [OF Cons.prems(1) a] Cons.prems(2) ims Cons.prems(4) arr]
    from Cons.IH [OF _ Cons.prems(2) rest_alloc Cons.prems(4) rest] s
    have "link_state_ok rt h0 st' \<and>
          ls_imtable st' =
            foldl (imt_install rt) (ls_imtable st1)
              (imt_writers rt h0 vt (concat (map (\<lambda>i. virtual_methods (heap i)) ifaces))) \<and>
          map fst es = ifaces"
      by simp
    then show ?thesis
      using s e by (simp add: imt_writers_append)
  qed
qed

lemma length_imt_install [simp]: "length (imt_install rt T w) = length T"
  by (simp add: imt_install_def)

lemma length_foldl_imt_install [simp]: "length (foldl (imt_install rt) T ws) = length T"
  by (induction ws arbitrary: T) simp_all

lemma imt_install_nth:
  "s < length T \<Longrightarrow>
     imt_install rt T w ! s =
       (if fst w = s then Some (if T ! s = None then snd w else imt_conflict_method rt)
        else T ! s)"
  by (auto simp: imt_install_def)

lemma foldl_imt_install_nth:
  "s < length T \<Longrightarrow>
     foldl (imt_install rt) T ws ! s =
       (case filter (\<lambda>w. fst w = s) ws of
          [] \<Rightarrow> T ! s
        | [w] \<Rightarrow> Some (if T ! s = None then snd w else imt_conflict_method rt)
        | _ \<Rightarrow> Some (imt_conflict_method rt))"
proof (induction ws arbitrary: T)
  case Nil
  then show ?case by simp
next
  case (Cons w ws)
  have len: "s < length (imt_install rt T w)" using Cons.prems by simp
  show ?case
  proof (cases "fst w = s")
    case True
    then show ?thesis
      using Cons.IH [OF len] Cons.prems
      by (simp add: imt_install_nth split: list.splits)
  next
    case False
    then show ?thesis
      using Cons.IH [OF len] Cons.prems
      by (simp add: imt_install_nth split: list.splits)
  qed
qed

lemma fill_imtable_nth:
  assumes "s < n"
  shows "fill_imtable rt (foldl (imt_install rt) (replicate n None) ws) ! s = imt_slot rt ws s"
proof -
  have "s < length (replicate n (None :: nat option))" using assms by simp
  from foldl_imt_install_nth [OF this, of rt ws] assms
  show ?thesis
    by (simp add: fill_imtable_def imt_slot_def split: list.splits)
qed

lemma foldl_imt_install_entry:
  assumes "ws \<noteq> []" and "\<forall>w\<in>set ws. fst w < length T"
  shows "\<exists>entry\<in>set (foldl (imt_install rt) T ws). entry \<noteq> None"
proof -
  obtain w ws' where ws: "ws = w # ws'" using assms(1) by (cases ws) auto
  have s: "fst w < length T" using assms(2) ws by simp
  have "filter (\<lambda>x. fst x = fst w) ws \<noteq> []" using ws by simp
  then have "foldl (imt_install rt) T ws ! fst w \<noteq> None"
    using foldl_imt_install_nth [OF s, of rt ws] by (simp split: list.splits)
  moreover have "foldl (imt_install rt) T ws ! fst w \<in> set (foldl (imt_install rt) T ws)"
    using s by simp
  ultimately show ?thesis by blast
qed

lemma link_iftable_Inr:
  assumes "link_iftable rt heap klass interfaces h = Inr (b, klass1, h1)"
  shows "vtable klass1 = vtable klass" and "virtual_methods klass1 = virtual_methods klass"
    and "imtable klass1 = default_imt rt"
    and "method_at h1 = method_at h" and "next_address h1 = next_address h"
    and "\<not> b \<Longrightarrow> \<exists>t. iftable klass1 = Some t"
proof -
  have "vtable klass1 = vtable klass \<and> virtual_methods klass1 = virtual_methods klass
        \<and> imtable klass1 = default_imt rt
        \<and> method_at h1 = method_at h \<and> next_address h1 = next_address h
        \<and> (\<not> b \<longrightarrow> (\<exists>t. iftable klass1 = Some t))"
    using assms
    by (auto simp: link_iftable_def Let_def AllocArray_def split: if_splits sum.splits)
  then show "vtable klass1 = vtable klass" and "virtual_methods klass1 = virtual_methods klass"
    and "imtable klass1 = default_imt rt"
    and "method_at h1 = method_at h" and "next_address h1 = next_address h"
    and "\<not> b \<Longrightarrow> \<exists>t. iftable klass1 = Some t"
    by simp_all
qed

lemma link_interface_tables_Inr:
  assumes run: "link_interface_tables rt heap klass1 h1 = Inr (klass', h')"
    and vt: "vtable klass1 = Some vt" and ift: "iftable klass1 = Some table"
  shows "\<exists>h0 st entries.
           AllocArray h1 = Inr h0 \<and>
           link_interfaces rt heap (Some vt) (map fst table)
             \<lparr>ls_heap = h0, ls_imtable = replicate (kImtSize rt) None,
              ls_imtable_changed = False, ls_miranda_list = []\<rparr> = Inr (st, entries) \<and>
           imtable klass' = (if ls_imtable_changed st then fill_imtable rt (ls_imtable st)
                             else imtable klass1) \<and>
           iftable klass' = Some entries \<and>
           vtable klass' = Some (vt @ ls_miranda_list st) \<and>
           (if ls_miranda_list st = [] then h' = ls_heap st
            else \<exists>h2 h3. AllocArray (ls_heap st) = Inr h2 \<and> AllocArray h2 = Inr h3 \<and>
                   h' = set_miranda_indices (ls_miranda_list st) (length vt) h3)"
proof -
  from run obtain h0 where a: "AllocArray h1 = Inr h0"
    by (cases "AllocArray h1") (simp_all add: link_interface_tables_def)
  from run a vt ift obtain st entries where
    loop: "link_interfaces rt heap (Some vt) (map fst table)
             \<lparr>ls_heap = h0, ls_imtable = replicate (kImtSize rt) None,
              ls_imtable_changed = False, ls_miranda_list = []\<rparr> = Inr (st, entries)"
    by (cases "link_interfaces rt heap (Some vt) (map fst table)
                 \<lparr>ls_heap = h0, ls_imtable = replicate (kImtSize rt) None,
                  ls_imtable_changed = False, ls_miranda_list = []\<rparr>")
       (auto simp: link_interface_tables_def)
  show ?thesis
  proof (cases "ls_miranda_list st = []")
    case True
    with run a vt ift loop have
      "klass' = (if ls_imtable_changed st
                 then klass1\<lparr>iftable := Some entries,
                             imtable := fill_imtable rt (ls_imtable st)\<rparr>
                 else klass1\<lparr>iftable := Some entries\<rparr>)" and "h' = ls_heap st"
      by (auto simp: link_interface_tables_def Let_def)
    then show ?thesis using a loop True vt by auto
  next
    case False
    with run a vt ift loop obtain h2 where a2: "AllocArray (ls_heap st) = Inr h2"
      by (cases "AllocArray (ls_heap st)") (auto simp: link_interface_tables_def Let_def)
    with False run a vt ift loop obtain h3 where a3: "AllocArray h2 = Inr h3"
      by (cases "AllocArray h2") (auto simp: link_interface_tables_def Let_def)
    with a2 False run a vt ift loop have
      "klass' = (if ls_imtable_changed st
                 then klass1\<lparr>iftable := Some entries,
                             imtable := fill_imtable rt (ls_imtable st)\<rparr>
                 else klass1\<lparr>iftable := Some entries\<rparr>)
                \<lparr>virtual_methods := virtual_methods klass1 @ ls_miranda_list st,
                 vtable := Some (vt @ ls_miranda_list st)\<rparr>"
      and "h' = set_miranda_indices (ls_miranda_list st) (length vt) h3"
      by (auto simp: link_interface_tables_def Let_def)
    then show ?thesis using a loop False a2 a3 by auto
  qed
qed

lemma initial_link_state_ok:
  "link_state_ok rt h0 \<lparr>ls_heap = h0, ls_imtable = replicate (kImtSize rt) None,
                         ls_imtable_changed = False, ls_miranda_list = []\<rparr>"
  by (simp add: link_state_ok_def store_extends_refl)

lemma interface_methods_of_map:
  "interface_methods_of heap t = concat (map (\<lambda>i. virtual_methods (heap i)) (map fst t))"
  by (simp add: interface_methods_of_def comp_def)

lemma interface_methods_of_fst:
  "map fst entries = map fst table \<Longrightarrow>
     interface_methods_of heap entries = interface_methods_of heap table"
  by (simp only: interface_methods_of_map)

text \<open>The second part of \<^verbatim>\<open>LinkInterfaceMethods\<close>, when it succeeds: the state of its loops
  at their end, and what it leaves in the class and in the store.\<close>

lemma link_interface_tables_result:
  assumes run: "link_interface_tables rt heap klass1 h1 = Inr (klass', h')"
    and vt: "vtable klass1 = Some vt" and ift: "iftable klass1 = Some table"
    and pos: "0 < kImtSize rt"
    and vta: "methods_allocated h1 vt"
    and ima: "methods_allocated h1 (interface_methods_of heap table)"
  shows "\<exists>st entries.
           link_state_ok rt h1 st \<and>
           ls_imtable st = foldl (imt_install rt) (replicate (kImtSize rt) None)
                             (imt_writers rt h1 vt (interface_methods_of heap table)) \<and>
           map fst entries = map fst table \<and>
           imtable klass' = (if ls_imtable_changed st then fill_imtable rt (ls_imtable st)
                             else imtable klass1) \<and>
           iftable klass' = Some entries \<and>
           vtable klass' = Some (vt @ ls_miranda_list st) \<and>
           (if ls_miranda_list st = []
            then method_at h' = method_at (ls_heap st)
            else \<exists>h3. method_at h3 = method_at (ls_heap st) \<and>
                   h' = set_miranda_indices (ls_miranda_list st) (length vt) h3)"
proof -
  from link_interface_tables_Inr [OF run vt ift] obtain h0 st entries where
    a: "AllocArray h1 = Inr h0" and
    loop: "link_interfaces rt heap (Some vt) (map fst table)
             \<lparr>ls_heap = h0, ls_imtable = replicate (kImtSize rt) None,
              ls_imtable_changed = False, ls_miranda_list = []\<rparr> = Inr (st, entries)" and
    imt: "imtable klass' = (if ls_imtable_changed st then fill_imtable rt (ls_imtable st)
                            else imtable klass1)" and
    ift': "iftable klass' = Some entries" and
    vt': "vtable klass' = Some (vt @ ls_miranda_list st)" and
    h': "if ls_miranda_list st = [] then h' = ls_heap st
         else \<exists>h2 h3. AllocArray (ls_heap st) = Inr h2 \<and> AllocArray h2 = Inr h3 \<and>
                h' = set_miranda_indices (ls_miranda_list st) (length vt) h3"
    by blast
  note h0 = AllocArray_Inr [OF a]
  note im_eq = interface_methods_of_map [of heap table]
  have vta0: "\<forall>m\<in>set vt. m < next_address h0"
    using vta h0(2) by (simp add: methods_allocated_iff)
  have ima0: "\<forall>m\<in>set (concat (map (\<lambda>i. virtual_methods (heap i)) (map fst table))).
                m < next_address h0"
    using ima h0(2) unfolding im_eq by (simp add: methods_allocated_iff)
  from link_interfaces_loop [OF initial_link_state_ok pos ima0 vta0 loop]
  have ok0: "link_state_ok rt h0 st"
    and tab0: "ls_imtable st = foldl (imt_install rt) (replicate (kImtSize rt) None)
                 (imt_writers rt h0 vt (interface_methods_of heap table))"
    and fst: "map fst entries = map fst table"
    by (simp_all add: im_eq)
  have ok: "link_state_ok rt h1 st"
    using ok0 h0 by (simp add: link_state_ok_def store_extends_def)
  have "find_vtable_method h0 = find_vtable_method h1"
    using h0(1) by (simp add: find_vtable_method_def fun_eq_iff)
  then have "imt_writers rt h0 = imt_writers rt h1"
    using h0(1) by (simp add: imt_writers_def fun_eq_iff)
  with tab0 have tab: "ls_imtable st = foldl (imt_install rt) (replicate (kImtSize rt) None)
                 (imt_writers rt h1 vt (interface_methods_of heap table))"
    by simp
  have "if ls_miranda_list st = []
        then method_at h' = method_at (ls_heap st)
        else \<exists>h3. method_at h3 = method_at (ls_heap st) \<and>
               h' = set_miranda_indices (ls_miranda_list st) (length vt) h3"
  proof (cases "ls_miranda_list st = []")
    case True
    then show ?thesis using h' by simp
  next
    case False
    with h' obtain h2 h3 where "AllocArray (ls_heap st) = Inr h2" "AllocArray h2 = Inr h3"
      "h' = set_miranda_indices (ls_miranda_list st) (length vt) h3"
      by auto
    then show ?thesis
      using False AllocArray_Inr(1) [of "ls_heap st" h2] AllocArray_Inr(1) [of h2 h3] by auto
  qed
  with ok tab fst imt ift' vt' show ?thesis by blast
qed

lemma link_interfaces_fst:
  "link_interfaces rt heap v ifaces st = Inr (st', entries) \<Longrightarrow> map fst entries = ifaces"
proof (induction ifaces arbitrary: st entries)
  case Nil
  then show ?case by auto
next
  case (Cons i ifaces)
  from Cons.prems obtain st1 e es where
    "link_interfaces rt heap v ifaces st1 = Inr (st', es)" and "entries = (i, e) # es"
    by (auto split: if_splits sum.splits option.splits)
  then show ?case using Cons.IH by auto
qed

lemma imt_writers_store_cong:
  "method_at h' = method_at h \<Longrightarrow> imt_writers rt h' vt ims = imt_writers rt h vt ims"
  by (simp add: imt_writers_def find_vtable_method_def)

text \<open>
  Claim C3.  \<^verbatim>\<open>LinkInterfaceMethods\<close> on a class that is not an interface, when it comes to the
  method arrays (the first part of the function returns neither for a class without
  interfaces nor with the interface table of the superclass) and succeeds.  The writers are
  the interface methods of the interface table that have an implementation in the vtable of
  the class, in the order of the table, each with its slot: the index of the interface method
  in its dex file (\<^verbatim>\<open>GetDexMethodIndex\<close>) modulo \<^verbatim>\<open>kImtSize\<close>.  The interface method table of
  the class is the table of \<^verbatim>\<open>kImtSize\<close> slots that the writers, each in its turn, leave
  when a writer puts its implementation into its slot if the slot is empty and the conflict
  method if it is not, with the conflict method in the slots that stay empty: a slot has the
  implementation of its only writer, and the conflict method when it has several writers or
  none.  Without any writer the class has the default table of the runtime.
\<close>

theorem LinkInterfaceMethods_imt_first_writer_or_conflict:
  assumes run: "LinkInterfaceMethods rt heap klass interfaces h = Inr (klass', h')"
    and first: "link_iftable rt heap klass interfaces h = Inr (False, klass1, h1)"
    and vt: "vtable klass = Some vt"
    and ift: "iftable klass' = Some table"
    and pos: "0 < kImtSize rt"
    and vta: "methods_allocated h vt"
    and ima: "methods_allocated h (interface_methods_of heap table)"
    and writers: "writers = imt_writers rt h vt (interface_methods_of heap table)"
  shows "imtable klass' =
           (if writers = [] then default_imt rt
            else fill_imtable rt
                   (foldl (imt_install rt) (replicate (kImtSize rt) None) writers)) \<and>
         (writers \<noteq> [] \<longrightarrow>
            length (imtable klass') = kImtSize rt \<and>
            (\<forall>s<kImtSize rt. imtable klass' ! s = imt_slot rt writers s))"
proof -
  from run first have run2: "link_interface_tables rt heap klass1 h1 = Inr (klass', h')"
    by (simp add: LinkInterfaceMethods_def)
  note f = link_iftable_Inr [OF first]
  from f(6) obtain t where t: "iftable klass1 = Some t" by auto
  have vt1: "vtable klass1 = Some vt" using f(1) vt by simp
  have vta1: "methods_allocated h1 vt" using vta f(5) by (simp add: methods_allocated_iff)
  obtain h0 st0 where
    loop: "link_interfaces rt heap (Some vt) (map fst t)
       \<lparr>ls_heap = h0, ls_imtable = replicate (kImtSize rt) None,
        ls_imtable_changed = False, ls_miranda_list = []\<rparr> = Inr (st0, table)"
    using link_interface_tables_Inr [OF run2 vt1 t] ift by auto
  have fst: "map fst table = map fst t" by (rule link_interfaces_fst [OF loop])
  have ims: "interface_methods_of heap t = interface_methods_of heap table"
    by (rule interface_methods_of_fst [OF fst [symmetric]])
  have ima1: "methods_allocated h1 (interface_methods_of heap t)"
    using ima f(5) ims by (simp add: methods_allocated_iff)
  have w1: "imt_writers rt h1 vt (interface_methods_of heap t) = writers"
    using writers ims imt_writers_store_cong [OF f(4)] by simp
  from link_interface_tables_result [OF run2 vt1 t pos vta1 ima1] obtain st where
    ok: "link_state_ok rt h1 st" and
    tab: "ls_imtable st = foldl (imt_install rt) (replicate (kImtSize rt) None) writers" and
    imt: "imtable klass' = (if ls_imtable_changed st then fill_imtable rt (ls_imtable st)
                            else imtable klass1)"
    unfolding w1 by blast
  have ch: "ls_imtable_changed st \<longleftrightarrow> writers \<noteq> []"
  proof (cases "writers = []")
    case True
    then show ?thesis using ok tab by (simp add: link_state_ok_def)
  next
    case False
    have "\<forall>w\<in>set writers. fst w < length (replicate (kImtSize rt) (None :: nat option))"
      using imt_writers_slot [OF pos] writers by simp
    from foldl_imt_install_entry [OF False this, of rt]
    show ?thesis using ok tab False by (simp add: link_state_ok_def)
  qed
  have a: "imtable klass' =
           (if writers = [] then default_imt rt
            else fill_imtable rt
                   (foldl (imt_install rt) (replicate (kImtSize rt) None) writers))"
    using imt ch tab f(3) by simp
  have b: "length (imtable klass') = kImtSize rt \<and>
           (\<forall>s<kImtSize rt. imtable klass' ! s = imt_slot rt writers s)" if "writers \<noteq> []"
  proof -
    have "imtable klass'
            = fill_imtable rt (foldl (imt_install rt) (replicate (kImtSize rt) None) writers)"
      using a that by simp
    then show ?thesis
      using fill_imtable_nth [of _ "kImtSize rt" rt writers]
      by (simp add: fill_imtable_def [of rt "foldl (imt_install rt) _ _"])
  qed
  from a b show ?thesis by blast
qed

lemmas example_method_simps =
  example_C_linked_def example_C_def example_Base_def example_imt_runtime_def
  example_method_heap_def example_B_def example_I_def

text \<open>The class \<^verbatim>\<open>C\<close> with the vtable \<^verbatim>\<open>[A.f, C.f, C.g, C.k]\<close> and the interface \<^verbatim>\<open>I\<close>, for a table
  of 4 slots: \<^verbatim>\<open>I.f\<close> (index 8 in its dex file) writes \<^verbatim>\<open>C.f\<close> into slot 0, \<^verbatim>\<open>I.g\<close> (index 13)
  writes \<^verbatim>\<open>C.g\<close> into slot 1, \<^verbatim>\<open>I.k\<close> (index 17) finds slot 1 taken, and \<^verbatim>\<open>I.h\<close> has no
  implementation.  Slot 0 has \<^verbatim>\<open>C.f\<close>, the other slots have the conflict method.\<close>

theorem LinkInterfaceMethods_imt_first_writer_or_conflict_witness:
  "imt_writers example_imt_runtime example_store [0, 2, 3, 4] [5, 6, 7, 8]
     = [(0, 2), (1, 3), (1, 4)] \<and>
   (\<exists>klass' h'.
      LinkInterfaceMethods example_imt_runtime example_method_heap example_C_linked None
        example_store = Inr (klass', h') \<and>
      imtable klass' = [2, 99, 99, 99])"
proof -
  let ?klass1 = "example_C_linked\<lparr>imtable := [99, 99, 99, 99], iftable := Some [(13, None)]\<rparr>"
  let ?h1 = "example_store\<lparr>free_allocations := 19\<rparr>"
  let ?table = "[(13, Some [2, 3, 4, 9])] :: (nat \<times> nat list option) list"
  have first: "link_iftable example_imt_runtime example_method_heap example_C_linked None
                 example_store = Inr (False, ?klass1, ?h1)"
    by (simp add: link_iftable_def example_method_simps GetIfTableCount_def AllocArray_def
          IsInterface_def kAccInterface_def)
  have "\<exists>klass' h'. link_interface_tables example_imt_runtime example_method_heap ?klass1 ?h1
                      = Inr (klass', h') \<and> iftable klass' = Some ?table"
    by (simp add: link_interface_tables_def example_method_simps AllocArray_def Clone_def
          link_interface_method_def find_vtable_method_def HasSameNameAndSignature_def
          IsAbstract_def IsPublic_def kAccAbstract_def kAccPublic_def Let_def)
  then obtain klass' h' where
    run: "LinkInterfaceMethods example_imt_runtime example_method_heap example_C_linked None
            example_store = Inr (klass', h')" and
    ift: "iftable klass' = Some ?table"
    using first by (auto simp: LinkInterfaceMethods_def)
  have vt: "vtable example_C_linked = Some [0, 2, 3, 4]"
    by (simp add: example_method_simps)
  have pos: "0 < kImtSize example_imt_runtime"
    by (simp add: example_method_simps)
  have ims: "interface_methods_of example_method_heap ?table = [5, 6, 7, 8]"
    by (simp add: interface_methods_of_def example_method_simps)
  have vta: "methods_allocated example_store [0, 2, 3, 4]"
    by (simp add: methods_allocated_def)
  have ima: "methods_allocated example_store (interface_methods_of example_method_heap ?table)"
    by (simp add: ims methods_allocated_def)
  have w: "imt_writers example_imt_runtime example_store [0, 2, 3, 4] [5, 6, 7, 8]
             = [(0, 2), (1, 3), (1, 4)]"
    by (simp add: imt_writers_def List.map_filter_def find_vtable_method_def
          HasSameNameAndSignature_def example_imt_runtime_def)
  have r: "replicate 4 (None :: nat option) = [None, None, None, None]"
    by (simp add: eval_nat_numeral)
  from LinkInterfaceMethods_imt_first_writer_or_conflict
         [OF run first vt ift pos vta ima refl, THEN conjunct1]
  have "imtable klass' = [2, 99, 99, 99]"
    unfolding ims w
    by (simp add: fill_imtable_def imt_install_def example_imt_runtime_def r)
  with run w show ?thesis by blast
qed

subsection \<open>\<^verbatim>\<open>LinkInterfaceMethods\<close>: the slots of the miranda methods\<close>

lemma link_interface_method_fresh:
  assumes fr: "mirandas_fresh h0 st"
    and step: "link_interface_method rt vt im st = Inr (st', entry)"
  shows "mirandas_fresh h0 st'"
proof -
  consider (same) "ls_heap st' = ls_heap st" "ls_miranda_list st' = ls_miranda_list st"
    | (clone) a h' where "Clone (ls_heap st) im = Inr (a, h')" "ls_heap st' = h'"
        "ls_miranda_list st' = ls_miranda_list st @ [a]"
    using step
    by (auto simp: link_interface_method_def Let_def split: option.splits if_splits sum.splits)
  then show ?thesis
  proof cases
    case same
    then show ?thesis using fr by (simp add: mirandas_fresh_def)
  next
    case clone
    note cl = Clone_Inr [OF clone(1)]
    have ext: "store_extends h0 (ls_heap st)" using fr by (simp add: mirandas_fresh_def)
    have "store_extends h0 h'" by (rule store_extends_Clone [OF ext clone(1)])
    moreover have "a \<notin> set (ls_miranda_list st)"
      using fr cl(1) by (auto simp: mirandas_fresh_def)
    moreover have "next_address h0 \<le> a"
      using ext cl(1) by (simp add: store_extends_def)
    ultimately show ?thesis
      using fr clone(2,3) cl(1,2) by (auto simp: mirandas_fresh_def)
  qed
qed

lemma link_interface_method_array_fresh:
  "mirandas_fresh h0 st \<Longrightarrow> link_interface_method_array rt vt ims st = Inr (st', entries)
     \<Longrightarrow> mirandas_fresh h0 st'"
proof (induction ims arbitrary: st entries)
  case Nil
  then show ?case by simp
next
  case (Cons im ims)
  from Cons.prems(2) obtain st1 e es where
    step: "link_interface_method rt vt im st = Inr (st1, e)" and
    rest: "link_interface_method_array rt vt ims st1 = Inr (st', es)"
    by (auto split: sum.splits)
  from Cons.IH [OF link_interface_method_fresh [OF Cons.prems(1) step] rest]
  show ?case .
qed

lemma mirandas_fresh_AllocArray:
  assumes "mirandas_fresh h0 st" and "AllocArray (ls_heap st) = Inr h1"
  shows "mirandas_fresh h0 (st\<lparr>ls_heap := h1\<rparr>)"
  using assms store_extends_AllocArray [of h0 "ls_heap st" h1] AllocArray_Inr(2) [OF assms(2)]
  by (simp add: mirandas_fresh_def)

lemma link_interfaces_fresh:
  "mirandas_fresh h0 st \<Longrightarrow> link_interfaces rt heap v ifaces st = Inr (st', entries)
     \<Longrightarrow> mirandas_fresh h0 st'"
proof (induction ifaces arbitrary: st entries)
  case Nil
  then show ?case by simp
next
  case (Cons i ifaces)
  show ?case
  proof (cases "virtual_methods (heap i) = []")
    case True
    with Cons.prems(2) obtain es where
      "link_interfaces rt heap v ifaces st = Inr (st', es)"
      by (auto split: sum.splits)
    from Cons.IH [OF Cons.prems(1) this] show ?thesis .
  next
    case False
    with Cons.prems(2) obtain h1 vt st1 arr es where
      a: "AllocArray (ls_heap st) = Inr h1" and
      arr: "link_interface_method_array rt vt (virtual_methods (heap i)) (st\<lparr>ls_heap := h1\<rparr>)
              = Inr (st1, arr)" and
      rest: "link_interfaces rt heap v ifaces st1 = Inr (st', es)"
      by (auto split: sum.splits option.splits)
    from Cons.IH [OF link_interface_method_array_fresh
                       [OF mirandas_fresh_AllocArray [OF Cons.prems(1) a] arr] rest]
    show ?thesis .
  qed
qed

lemma set_miranda_indices_other:
  "x \<notin> set ms \<Longrightarrow> method_at (set_miranda_indices ms k h) x = method_at h x"
  by (induction ms arbitrary: k h) (simp_all add: method_at_SetMethodIndex)

lemma kAccMiranda_nonzero: "kAccMiranda \<noteq> 0"
  by (simp add: kAccMiranda_def)

lemma miranda_flag: "(flags OR kAccMiranda) AND kAccMiranda \<noteq> (0 :: 32 word)"
proof -
  have "(flags OR kAccMiranda) AND kAccMiranda = kAccMiranda"
    by (simp add: bit_eq_iff bit_and_iff bit_or_iff)
  then show ?thesis by (simp add: kAccMiranda_def)
qed

lemma set_miranda_indices_index:
  "distinct ms \<Longrightarrow> i < length ms \<Longrightarrow>
     method_index (method_at (set_miranda_indices ms k h) (ms ! i)) = (k + i) mod 65536 \<and>
     method_access_flags (method_at (set_miranda_indices ms k h) (ms ! i)) AND kAccMiranda \<noteq> 0"
proof (induction ms arbitrary: k h i)
  case Nil
  then show ?case by simp
next
  case (Cons m ms)
  show ?case
  proof (cases i)
    case 0
    then show ?thesis
      using Cons.prems
      by (simp add: set_miranda_indices_other method_at_SetMethodIndex miranda_flag
            kAccMiranda_nonzero)
  next
    case (Suc n)
    then show ?thesis
      using Cons.prems Cons.IH [of n "k + 1"] by simp
  qed
qed

text \<open>The second part of \<^verbatim>\<open>LinkInterfaceMethods\<close> leaves the methods of the vtable in their
  slots, and appends the miranda methods, which are new, each with the index of its slot in
  16 bits and with the flag \<^verbatim>\<open>kAccMiranda\<close>.\<close>

lemma link_interface_tables_indexed:
  assumes run: "link_interface_tables rt heap klass1 h1 = Inr (klass', h')"
    and vt: "vtable klass1 = Some vt" and ift: "iftable klass1 = Some table"
    and vta: "methods_allocated h1 vt"
  shows "\<exists>ms. vtable klass' = Some (vt @ ms) \<and>
           (\<forall>i<length vt. method_at h' (vt ! i) = method_at h1 (vt ! i)) \<and>
           (\<forall>i<length ms.
              method_index (method_at h' (ms ! i)) = (length vt + i) mod 65536 \<and>
              method_access_flags (method_at h' (ms ! i)) AND kAccMiranda \<noteq> 0)"
proof -
  from link_interface_tables_Inr [OF run vt ift] obtain h0 st entries where
    a: "AllocArray h1 = Inr h0" and
    loop: "link_interfaces rt heap (Some vt) (map fst table)
             \<lparr>ls_heap = h0, ls_imtable = replicate (kImtSize rt) None,
              ls_imtable_changed = False, ls_miranda_list = []\<rparr> = Inr (st, entries)" and
    vt': "vtable klass' = Some (vt @ ls_miranda_list st)" and
    h': "if ls_miranda_list st = [] then h' = ls_heap st
         else \<exists>h2 h3. AllocArray (ls_heap st) = Inr h2 \<and> AllocArray h2 = Inr h3 \<and>
                h' = set_miranda_indices (ls_miranda_list st) (length vt) h3"
    by blast
  note h0 = AllocArray_Inr [OF a]
  have "mirandas_fresh h0 \<lparr>ls_heap = h0, ls_imtable = replicate (kImtSize rt) None,
                            ls_imtable_changed = False, ls_miranda_list = []\<rparr>"
    by (simp add: mirandas_fresh_def store_extends_refl)
  from link_interfaces_fresh [OF this loop] have fr: "mirandas_fresh h0 st" .
  define ms where "ms = ls_miranda_list st"
  have dist: "distinct ms" using fr by (simp add: mirandas_fresh_def ms_def)
  have old: "method_at (ls_heap st) x = method_at h1 x" if "x < next_address h1" for x
    using fr that h0 by (simp add: mirandas_fresh_def store_extends_def)
  have new: "next_address h1 \<le> m" if "m \<in> set ms" for m
    using fr that h0 by (simp add: mirandas_fresh_def ms_def)
  have vt_old: "vt ! i < next_address h1" "vt ! i \<notin> set ms" if "i < length vt" for i
  proof -
    show "vt ! i < next_address h1" using vta that by (simp add: methods_allocated_iff)
    then show "vt ! i \<notin> set ms" using new by fastforce
  qed
  show ?thesis
  proof (cases "ms = []")
    case True
    then have "h' = ls_heap st" using h' by (simp add: ms_def)
    then show ?thesis using vt' True old vt_old(1) by (auto simp: ms_def)
  next
    case False
    with h' obtain h2 h3 where a2: "AllocArray (ls_heap st) = Inr h2"
      and a3: "AllocArray h2 = Inr h3"
      and h'_eq: "h' = set_miranda_indices ms (length vt) h3"
      by (auto simp: ms_def)
    have h3: "method_at h3 = method_at (ls_heap st)"
      using AllocArray_Inr(1) [OF a2] AllocArray_Inr(1) [OF a3] by simp
    have "method_at h' (vt ! i) = method_at h1 (vt ! i)" if "i < length vt" for i
      using vt_old [OF that] old h3 by (simp add: h'_eq set_miranda_indices_other)
    moreover have "method_index (method_at h' (ms ! i)) = (length vt + i) mod 65536 \<and>
                   method_access_flags (method_at h' (ms ! i)) AND kAccMiranda \<noteq> 0"
      if "i < length ms" for i
      unfolding h'_eq by (rule set_miranda_indices_index [OF dist that])
    ultimately show ?thesis using vt' by (auto simp: ms_def)
  qed
qed

text \<open>
  Claim C10.  Let \<^verbatim>\<open>LinkVirtualMethods\<close> and then \<^verbatim>\<open>LinkInterfaceMethods\<close> succeed on a class whose
  virtual methods are distinct objects of the store, none of them in the vtable of the
  superclass, and whose superclass (if it has one) has every method of its vtable in the
  slot of its index.  Then the vtable of the class is the table \<open>vt\<close> that
  \<^verbatim>\<open>LinkVirtualMethods\<close> builds (by overriding in place and appending, or for the root class
  from its methods), followed by the miranda methods that \<^verbatim>\<open>LinkInterfaceMethods\<close> appends;
  the method in a slot \<open>i\<close> of \<open>vt\<close> has the method index \<open>i\<close>, and the method in a later slot
  \<open>i\<close> is flagged \<^verbatim>\<open>kAccMiranda\<close> and has the method index \<open>i\<close> masked to 16 bits.
\<close>

theorem vtable_slot_is_method_index:
  assumes lv: "LinkVirtualMethods CanAccessMember is_object heap klass h = Inr (klass1, h1)"
    and li: "LinkInterfaceMethods rt heap klass1 interfaces h1 = Inr (klass2, h2)"
    and inh: "vtable_indexed h (inherited_vtable heap klass)"
    and dist: "distinct (virtual_methods klass)"
    and disj: "set (inherited_vtable heap klass) \<inter> set (virtual_methods klass) = {}"
    and alloc: "methods_allocated h (inherited_vtable heap klass @ virtual_methods klass)"
  shows "\<exists>vt mirandas.
           vtable klass1 = Some vt \<and> vtable klass2 = Some (vt @ mirandas) \<and>
           (\<forall>i<length (vt @ mirandas).
              if i < length vt
              then method_index (method_at h2 ((vt @ mirandas) ! i)) = i
              else method_index (method_at h2 ((vt @ mirandas) ! i)) = i mod 65536 \<and>
                   method_access_flags (method_at h2 ((vt @ mirandas) ! i)) AND kAccMiranda \<noteq> 0)"
proof -
  from LinkVirtualMethods_indexed [OF lv inh dist disj] obtain vt where
    k1: "klass1 = klass\<lparr>vtable := Some vt\<rparr>" and
    ix: "vtable_indexed h1 vt" and len: "length vt < 65536" and
    sub: "set vt \<subseteq> set (inherited_vtable heap klass) \<union> set (virtual_methods klass)" and
    na: "next_address h1 = next_address h"
    by blast
  have vt1: "vtable klass1 = Some vt" using k1 by simp
  have vta: "methods_allocated h1 vt"
    using alloc sub na by (auto simp: methods_allocated_iff)
  have ix1: "method_index (method_at h1 (vt ! i)) = i" if "i < length vt" for i
    using ix that len by (simp add: vtable_indexed_iff)
  obtain b klass' h' where first: "link_iftable rt heap klass1 interfaces h1 = Inr (b, klass', h')"
    using li by (cases "link_iftable rt heap klass1 interfaces h1")
                (auto simp: LinkInterfaceMethods_def)
  note f = link_iftable_Inr [OF first]
  have "\<exists>ms. vtable klass2 = Some (vt @ ms) \<and>
           (\<forall>i<length vt. method_at h2 (vt ! i) = method_at h1 (vt ! i)) \<and>
           (\<forall>i<length ms.
              method_index (method_at h2 (ms ! i)) = (length vt + i) mod 65536 \<and>
              method_access_flags (method_at h2 (ms ! i)) AND kAccMiranda \<noteq> 0)"
  proof (cases b)
    case True
    with li first have "klass2 = klass'" "h2 = h'" by (simp_all add: LinkInterfaceMethods_def)
    then have "vtable klass2 = Some (vt @ [])" "method_at h2 = method_at h1"
      using f(1,4) vt1 by simp_all
    then show ?thesis by (intro exI [of _ "[]"]) simp
  next
    case False
    with li first have run: "link_interface_tables rt heap klass' h' = Inr (klass2, h2)"
      by (simp add: LinkInterfaceMethods_def)
    from f(6) False obtain t where t: "iftable klass' = Some t" by auto
    have vt': "vtable klass' = Some vt" using f(1) vt1 by simp
    have vta': "methods_allocated h' vt" using vta f(5) by (simp add: methods_allocated_iff)
    from link_interface_tables_indexed [OF run vt' t vta'] show ?thesis
      using f(4) by simp
  qed
  then obtain ms where
    v2: "vtable klass2 = Some (vt @ ms)" and
    keep: "\<And>i. i < length vt \<Longrightarrow> method_at h2 (vt ! i) = method_at h1 (vt ! i)" and
    mir: "\<And>i. i < length ms \<Longrightarrow>
            method_index (method_at h2 (ms ! i)) = (length vt + i) mod 65536 \<and>
            method_access_flags (method_at h2 (ms ! i)) AND kAccMiranda \<noteq> 0"
    by blast
  have "if i < length vt
        then method_index (method_at h2 ((vt @ ms) ! i)) = i
        else method_index (method_at h2 ((vt @ ms) ! i)) = i mod 65536 \<and>
             method_access_flags (method_at h2 ((vt @ ms) ! i)) AND kAccMiranda \<noteq> 0"
    if "i < length (vt @ ms)" for i
  proof (cases "i < length vt")
    case True
    then show ?thesis using keep ix1 by (simp add: nth_append)
  next
    case False
    then have "i - length vt < length ms" using that by simp
    from mir [OF this] False show ?thesis by (simp add: nth_append)
  qed
  with vt1 v2 show ?thesis by blast
qed

text \<open>The class \<^verbatim>\<open>C\<close>, which may access public methods only: \<^verbatim>\<open>C.f\<close> overrides \<^verbatim>\<open>B.f\<close> in slot
  1, \<^verbatim>\<open>C.g\<close> and \<^verbatim>\<open>C.k\<close> are appended in the slots 2 and 3, and the miranda method for \<^verbatim>\<open>I.h\<close>,
  at the new address 9, in slot 4.\<close>

theorem vtable_slot_is_method_index_witness:
  "\<exists>klass1 h1 klass2 h2.
     LinkVirtualMethods example_CanAccessMember False example_method_heap example_C
       example_store = Inr (klass1, h1) \<and>
     LinkInterfaceMethods example_imt_runtime example_method_heap klass1 None h1
       = Inr (klass2, h2) \<and>
     vtable klass2 = Some [0, 2, 3, 4, 9] \<and>
     map (\<lambda>m. method_index (method_at h2 m)) [0, 2, 3, 4, 9] = [0, 1, 2, 3, 4]"
proof -
  have "\<exists>h1. LinkVirtualMethods example_CanAccessMember False example_method_heap example_C
               example_store = Inr (example_C_linked, h1) \<and>
             (\<exists>klass2 h2.
                LinkInterfaceMethods example_imt_runtime example_method_heap example_C_linked
                  None h1 = Inr (klass2, h2) \<and>
                vtable klass2 = Some [0, 2, 3, 4, 9])"
    by (simp add: LinkVirtualMethods_def link_virtual_method_def example_method_simps
          example_CanAccessMember_def HasSameNameAndSignature_def IsFinal_def kAccFinal_def
          kAccPublic_def AllocArray_def Let_def method_at_SetMethodIndex
          LinkInterfaceMethods_def link_iftable_def GetIfTableCount_def IsInterface_def
          kAccInterface_def link_interface_tables_def Clone_def
          link_interface_method_def find_vtable_method_def
          IsAbstract_def kAccAbstract_def IsPublic_def)
  then obtain h1 klass2 h2 where
    lv: "LinkVirtualMethods example_CanAccessMember False example_method_heap example_C
           example_store = Inr (example_C_linked, h1)" and
    li: "LinkInterfaceMethods example_imt_runtime example_method_heap example_C_linked
           None h1 = Inr (klass2, h2)" and
    v2: "vtable klass2 = Some [0, 2, 3, 4, 9]"
    by blast
  have iv: "inherited_vtable example_method_heap example_C = [0, 1]"
    by (simp add: inherited_vtable_def example_method_simps)
  have vm: "virtual_methods example_C = [2, 3, 4]"
    by (simp add: example_method_simps)
  have inh: "vtable_indexed example_store (inherited_vtable example_method_heap example_C)"
    by (simp add: iv vtable_indexed_def upt_conv_Cons)
  have dist: "distinct (virtual_methods example_C)"
    by (simp add: vm)
  have disj: "set (inherited_vtable example_method_heap example_C)
                \<inter> set (virtual_methods example_C) = {}"
    by (simp add: iv vm)
  have alloc: "methods_allocated example_store
                 (inherited_vtable example_method_heap example_C @ virtual_methods example_C)"
    by (simp add: iv vm methods_allocated_def)
  from vtable_slot_is_method_index [OF lv li inh dist disj alloc]
  obtain vt mirandas where
    vt: "vtable example_C_linked = Some vt" and
    v2': "vtable klass2 = Some (vt @ mirandas)" and
    ixa: "\<forall>i<length (vt @ mirandas).
           (if i < length vt
            then method_index (method_at h2 ((vt @ mirandas) ! i)) = i
            else method_index (method_at h2 ((vt @ mirandas) ! i)) = i mod 65536 \<and>
                 method_access_flags (method_at h2 ((vt @ mirandas) ! i)) AND kAccMiranda \<noteq> 0)"
    by blast
  have all: "vt @ mirandas = [0, 2, 3, 4, 9]" using v2 v2' by simp
  note ix = ixa [unfolded all, rule_format]
  have vt_eq: "vt = [0, 2, 3, 4]" using vt by (simp add: example_method_simps)
  have "method_index (method_at h2 0) = 0" using ix [of 0] by (simp add: vt_eq)
  moreover have "method_index (method_at h2 2) = 1" using ix [of 1] by (simp add: vt_eq)
  moreover have "method_index (method_at h2 3) = 2" using ix [of 2] by (simp add: vt_eq)
  moreover have "method_index (method_at h2 4) = 3" using ix [of 3] by (simp add: vt_eq)
  moreover have "method_index (method_at h2 9) = 4" using ix [of 4] by (simp add: vt_eq)
  ultimately have m: "map (\<lambda>m. method_index (method_at h2 m)) [0, 2, 3, 4, 9] = [0, 1, 2, 3, 4]"
    by simp
  show ?thesis
    by (rule exI [of _ example_C_linked], rule exI [of _ h1], rule exI [of _ klass2],
        rule exI [of _ h2]) (simp only: lv li v2 m simp_thms)
qed

subsection \<open>Erroneous classes and failing initializers\<close>

lemma ThrowEarlierClassFailure_erroneous:
  assumes "IsErroneous (heap klass)"
  shows "ThrowEarlierClassFailure heap self klass
       = Inr (ThrowNewException self (earlier_failure_class heap klass) (descriptor (heap klass)))"
  using assms
  by (simp add: ThrowEarlierClassFailure_def earlier_failure_class_def split: option.splits)

lemma erroneous_not_resolved: "IsErroneous c \<Longrightarrow> \<not> IsResolved c"
  by (simp add: IsErroneous_def IsResolved_def)

lemma erroneous_not_initialized: "IsErroneous c \<Longrightarrow> \<not> IsInitialized c"
  by (simp add: IsErroneous_def IsInitialized_def)

lemma EnsureResolved_erroneous:
  assumes "IsErroneous (heap klass)"
  shows "EnsureResolved wakeups self heap klass
       = Some (Inr (None,
           ThrowNewException self (earlier_failure_class heap klass) (descriptor (heap klass)),
           heap))"
  using assms
  by (simp add: EnsureResolved_def return_resolved_def ThrowEarlierClassFailure_erroneous)

lemma enter_initialization_erroneous:
  assumes "IsErroneous (heap klass)"
  shows "enter_initialization env klass self heap
       = Inl (Some (Inr (False,
           ThrowNewException self (earlier_failure_class heap klass) (descriptor (heap klass)),
           heap)))"
  using assms
  by (simp add: enter_initialization_def ThrowEarlierClassFailure_erroneous
      erroneous_not_initialized)

text \<open>Claim C5, as amended.  For a class whose status is Error: \<^verbatim>\<open>EnsureResolved\<close> returns
  \<^verbatim>\<open>nullptr\<close> with a new exception pending, of the recorded verify-error class when there is
  one and a \<^verbatim>\<open>NoClassDefFoundError\<close> otherwise, and the store is as it was (no linking step
  runs, the status stays Error); \<^verbatim>\<open>InitializeClass\<close> does the same and returns
  \<^verbatim>\<open>false\<close> when \<^verbatim>\<open>CanWeInitializeClass\<close> allows the initialisation, and returns \<^verbatim>\<open>false\<close>
  with the thread and the store untouched, so without an exception of its own, when
  \<^verbatim>\<open>CanWeInitializeClass\<close> does not allow it.\<close>

theorem erroneous_class_is_rejected:
  assumes "IsErroneous (heap klass)"
  shows "EnsureResolved wakeups self heap klass
           = Some (Inr (None,
               ThrowNewException self (earlier_failure_class heap klass) (descriptor (heap klass)),
               heap))
       \<and> (CanWeInitializeClass (Suc fuel) heap klass can_init_statics can_init_parents = Some True
            \<longrightarrow>
          InitializeClass (Suc fuel) env can_init_statics can_init_parents klass self heap
            = Some (Inr (False,
                ThrowNewException self (earlier_failure_class heap klass) (descriptor (heap klass)),
                heap)))
       \<and> (CanWeInitializeClass (Suc fuel) heap klass can_init_statics can_init_parents = Some False
            \<longrightarrow>
          InitializeClass (Suc fuel) env can_init_statics can_init_parents klass self heap
            = Some (Inr (False, self, heap)))"
proof (intro conjI impI)
  show "EnsureResolved wakeups self heap klass
           = Some (Inr (None,
               ThrowNewException self (earlier_failure_class heap klass) (descriptor (heap klass)),
               heap))"
    using assms by (rule EnsureResolved_erroneous)
next
  assume c: "CanWeInitializeClass (Suc fuel) heap klass can_init_statics can_init_parents = Some True"
  show "InitializeClass (Suc fuel) env can_init_statics can_init_parents klass self heap
            = Some (Inr (False,
                ThrowNewException self (earlier_failure_class heap klass) (descriptor (heap klass)),
                heap))"
  proof -
    have n: "\<not> IsInitialized (heap klass)" using assms by (rule erroneous_not_initialized)
    have e: "enter_initialization env klass self heap
       = Inl (Some (Inr (False,
           ThrowNewException self (earlier_failure_class heap klass) (descriptor (heap klass)),
           heap)))"
      using assms by (rule enter_initialization_erroneous)
    show ?thesis by (simp add: n c e del: CanWeInitializeClass.simps)
  qed
next
  assume c: "CanWeInitializeClass (Suc fuel) heap klass can_init_statics can_init_parents = Some False"
  show "InitializeClass (Suc fuel) env can_init_statics can_init_parents klass self heap
            = Some (Inr (False, self, heap))"
  proof -
    have n: "\<not> IsInitialized (heap klass)" using assms by (rule erroneous_not_initialized)
    show ?thesis by (simp add: n c del: CanWeInitializeClass.simps)
  qed
qed

lemmas example_init_simps = example_X_heap_def example_erroneous_heap_def example_X_def
  example_Base_def example_thread_def example_runtime_def

theorem erroneous_class_is_rejected_witness:
  "EnsureResolved [] example_thread example_erroneous_heap 1
     = Some (Inr (None,
         example_thread\<lparr>exception :=
           Some (Throwable ''Ljava/lang/NoClassDefFoundError;'' ''LX;'' None)\<rparr>,
         example_erroneous_heap))
   \<and> InitializeClass 1 example_runtime True True 1 example_thread example_erroneous_heap
     = Some (Inr (False,
         example_thread\<lparr>exception :=
           Some (Throwable ''Ljava/lang/NoClassDefFoundError;'' ''LX;'' None)\<rparr>,
         example_erroneous_heap))"
proof -
  have e: "IsErroneous (example_erroneous_heap 1)"
    by (simp add: IsErroneous_def example_init_simps)
  have c: "CanWeInitializeClass (Suc 0) example_erroneous_heap 1 True True = Some True"
    by simp
  note t = erroneous_class_is_rejected [where heap = example_erroneous_heap and klass = 1
      and self = example_thread and wakeups = "[]"
      and fuel = 0 and can_init_statics = True and can_init_parents = True
      and env = example_runtime, OF e]
  from t [THEN conjunct1] t [THEN conjunct2, THEN conjunct1, THEN mp, OF c]
  show ?thesis
    by (simp add: ThrowNewException_def earlier_failure_class_def example_init_simps)
qed

text \<open>Claim C5 as stated has every attempt through \<^verbatim>\<open>InitializeClass\<close> raise an exception.
  The erroneous class \<^verbatim>\<open>LX;\<close> has a class initializer; a caller that does not allow static
  initialisation gets \<^verbatim>\<open>false\<close> and no exception.\<close>

theorem erroneous_class_fast_fail_counterexample:
  "InitializeClass 1 example_runtime False True 1 example_thread example_erroneous_heap
     = Some (Inr (False, example_thread, example_erroneous_heap))
   \<and> exception example_thread = None
   \<and> IsErroneous (example_erroneous_heap 1)"
  by (simp add: IsErroneous_def IsInitialized_def example_init_simps)

text \<open>Claim C6.  When \<^verbatim>\<open>InitializeClass\<close> has run the static initializers of a class (the
  encoded static values and the class initializer) and an exception \<open>e\<close> is pending after
  them, it returns \<^verbatim>\<open>false\<close>, the class has status Error, and the pending exception is \<open>e\<close>
  itself when \<open>e\<close> is an instance of \<^verbatim>\<open>java.lang.Error\<close> and an
  \<^verbatim>\<open>ExceptionInInitializerError\<close> with \<open>e\<close> as its cause otherwise.\<close>

theorem InitializeClass_wraps_initializer_exception:
  assumes "\<not> IsInitialized (heap klass)"
    and "CanWeInitializeClass (Suc fuel) heap klass can_init_statics can_init_parents = Some True"
    and "enter_initialization env klass self heap = Inr (self2, heap2)"
    and "initialize_super (InitializeClass fuel env can_init_statics True) can_init_parents
           klass self2 heap2 = Inr (self3, heap3)"
    and "initialize_statics env can_init_statics klass self3 heap3 = Inr (self4, heap4)"
    and "exception self4 = Some e"
  shows "InitializeClass (Suc fuel) env can_init_statics can_init_parents klass self heap
       = Some (Inr (False, self4\<lparr>exception := Some (wrapped_in_initializer env e)\<rparr>,
                    heap4(klass := SetStatus (heap4 klass) kStatusError)))
       \<and> status ((heap4(klass := SetStatus (heap4 klass) kStatusError)) klass) = kStatusError"
proof -
  have w: "WrapExceptionInInitializer env self4
      = Inr (self4\<lparr>exception := Some (wrapped_in_initializer env e)\<rparr>)"
    using assms(6)
    by (simp add: WrapExceptionInInitializer_def wrapped_in_initializer_def
        ThrowNewWrappedException_def Let_def)
  have f: "finish_initialization env klass self4 heap4
      = Inr (False, self4\<lparr>exception := Some (wrapped_in_initializer env e)\<rparr>,
             heap4(klass := SetStatus (heap4 klass) kStatusError))"
    using assms(6) by (simp add: finish_initialization_def w)
  show ?thesis
    using assms(1)
    by (simp add: assms(2,3,4,5) f SetStatus_def del: CanWeInitializeClass.simps)
qed

theorem InitializeClass_wraps_initializer_exception_witness:
  "InitializeClass 1 example_runtime True True 1 example_thread example_X_heap
     = Some (Inr (False,
         example_thread\<lparr>exception :=
           Some (Throwable ''Ljava/lang/ExceptionInInitializerError;'' []
                   (Some (Throwable ''Ljava/lang/RuntimeException;'' ''boom'' None)))\<rparr>,
         example_X_heap(1 := example_X\<lparr>clinit_thread_id := 7, status := kStatusError\<rparr>)))"
proof -
  let ?h2 = "example_X_heap(1 := example_X\<lparr>clinit_thread_id := 7, status := kStatusInitializing\<rparr>)"
  let ?e = "Throwable ''Ljava/lang/RuntimeException;'' ''boom'' None"
  have 1: "\<not> IsInitialized (example_X_heap 1)"
    by (simp add: IsInitialized_def example_init_simps)
  have 2: "CanWeInitializeClass (Suc 0) example_X_heap 1 True True = Some True" by simp
  have 3: "enter_initialization example_runtime 1 example_thread example_X_heap
      = Inr (example_thread, ?h2)"
    by (simp add: enter_initialization_def IsInitialized_def IsErroneous_def IsResolved_def
        IsVerified_def SetStatus_def example_init_simps)
  have 4: "initialize_super (InitializeClass 0 example_runtime True True) True 1 example_thread ?h2
      = Inr (example_thread, ?h2)"
    by (simp add: initialize_super_def example_init_simps)
  have 5: "initialize_statics example_runtime True 1 example_thread ?h2
      = Inr (example_thread\<lparr>exception := Some ?e\<rparr>, ?h2)"
    by (simp add: initialize_statics_def example_init_simps)
  have 6: "exception (example_thread\<lparr>exception := Some ?e\<rparr>) = Some ?e" by simp
  from InitializeClass_wraps_initializer_exception [where heap = example_X_heap and klass = 1,
      OF 1 2 3 4 5 6, THEN conjunct1]
  show ?thesis
    by (simp add: wrapped_in_initializer_def SetStatus_def example_init_simps)
qed

end
